theory Spec2Isabelle
  imports Complex_Main "HOL-Library.Multiset"
begin

section \<open>The 8-puzzle A* solver of Exercise1 (astar.py, statistics.py)\<close>

text \<open>
  Conventions of the embedding.
  \<^item> A puzzle state is the Python tuple of ints, as an \<open>int list\<close>; the 3x3 array that
    \<open>np.reshape(_, (3, 3))\<close> returns is the same nine cells in row-major order, cell
    \<open>(row, col)\<close> at flat index \<open>3 * row + col\<close>.
  \<^item> Python floats (weights, scores, the branching factor) are exact rationals:
    rounding is not modelled.
  \<^item> Every exception of the source is a value \<open>Inl e\<close> of \<open>error + 'a\<close>.
  \<^item> Node objects live in an object store, a \<open>node list\<close>; a reference to a Node is
    its index in the store.
\<close>

subsection \<open>Errors\<close>

datatype error =
    ValueError
  | IndexError
  | KeyError
  | ZeroDivisionError
  | TypeError
  | NameError
  | Uninitialised
    \<comment> \<open>not a Python exception: a cell of \<open>np.empty\<close> read before any assignment;
        numpy goes on with whatever the memory held, the model stops here\<close>

fun bind_err :: "error + 'a \<Rightarrow> ('a \<Rightarrow> error + 'b) \<Rightarrow> error + 'b" where
  "bind_err (Inl e) f = Inl e"
| "bind_err (Inr x) f = f x"

subsection \<open>numpy helpers\<close>

type_synonym puzzle = "int list"

text \<open>\<open>np.reshape(p, (3, 3))\<close>: ValueError unless \<open>p\<close> has nine elements.\<close>

definition reshape33 :: "int list \<Rightarrow> error + int list" where
  "reshape33 p = (if length p = 9 then Inr p else Inl ValueError)"

definition cell :: "int list \<Rightarrow> nat \<Rightarrow> nat \<Rightarrow> int" where
  "cell m row col = m ! (3 * row + col)"

definition set_cell :: "int list \<Rightarrow> nat \<Rightarrow> nat \<Rightarrow> int \<Rightarrow> int list" where
  "set_cell m row col v = m[3 * row + col := v]"

text \<open>An index into an array of length \<open>n\<close>: negative indices count from the end,
  anything outside \<open>-n .. n-1\<close> raises IndexError.\<close>

definition np_index :: "nat \<Rightarrow> int \<Rightarrow> error + nat" where
  "np_index n i =
     (if 0 \<le> i \<and> i < int n then Inr (nat i)
      else if - int n \<le> i \<and> i < 0 then Inr (nat (i + int n))
      else Inl IndexError)"

text \<open>\<open>pos_matrix[idx] = np.arange(nn)\<close> on \<open>pos_matrix = np.empty(nn)\<close>: the k-th
  index receives k, a later assignment to the same cell wins; \<open>None\<close> is a cell that
  was never assigned.\<close>

fun assign_arange :: "int option list \<Rightarrow> nat \<Rightarrow> int list \<Rightarrow> error + int option list" where
  "assign_arange pos k [] = Inr pos"
| "assign_arange pos k (v # vs) =
     bind_err (np_index (length pos) v) (\<lambda>i. assign_arange (pos[i := Some (int k)]) (Suc k) vs)"

fun initialised :: "int option list \<Rightarrow> error + int list" where
  "initialised [] = Inr []"
| "initialised (None # cs) = Inl Uninitialised"
| "initialised (Some c # cs) = bind_err (initialised cs) (\<lambda>r. Inr (c # r))"

subsection \<open>Heuristics (astar.py, lines 119-168)\<close>

definition build_position_matrix :: "int list \<Rightarrow> error + int list" where
  "build_position_matrix matrix =
     (let n = 3; nn = n * n;
          pos_matrix = replicate nn None
      in bind_err (assign_arange pos_matrix 0 matrix) initialised)"

text \<open>
  In \<open>manhattan_distance\<close>, \<open>n = pos_matrix1.shape\<close> is the tuple \<open>(9,)\<close>, not the side
  length 3: \<open>pos_matrix1 % n\<close> and \<open>pos_matrix1 // n\<close> broadcast the one-element tuple,
  so every position is taken modulo 9 and divided by 9.
\<close>

definition manhattan_distance :: "puzzle \<Rightarrow> puzzle \<Rightarrow> error + int" where
  "manhattan_distance start goal =
     bind_err (reshape33 start) (\<lambda>start.
     bind_err (reshape33 goal) (\<lambda>goal.
     bind_err (build_position_matrix start) (\<lambda>pos_matrix1.
     bind_err (build_position_matrix goal) (\<lambda>pos_matrix2.
       let n = int (length pos_matrix1);
           x_init_pos = map (\<lambda>p. p mod n) pos_matrix1;
           y_init_pos = map (\<lambda>p. p div n) pos_matrix1;
           x_goal_pos = map (\<lambda>p. p mod n) pos_matrix2;
           y_goal_pos = map (\<lambda>p. p div n) pos_matrix2;
           distance_x = map2 (\<lambda>g i. \<bar>g - i\<bar>) x_goal_pos x_init_pos;
           distance_y = map2 (\<lambda>g i. \<bar>g - i\<bar>) y_goal_pos y_init_pos;
           distance = map2 (+) distance_x distance_y
       in Inr (sum_list distance)))))"

definition hamming_distance :: "puzzle \<Rightarrow> puzzle \<Rightarrow> error + int" where
  "hamming_distance start goal =
     bind_err (reshape33 start) (\<lambda>start.
     bind_err (reshape33 goal) (\<lambda>goal.
       Inr (int (length (filter (\<lambda>(s, g). s \<noteq> g) (zip start goal))))))"

type_synonym heuristic_fn = "puzzle \<Rightarrow> puzzle \<Rightarrow> error + rat"

text \<open>The two heuristics as passed in the \<open>heuristics\<close> list: Python mixes their
  integer results with the float weights without a conversion.\<close>

definition as_number :: "(puzzle \<Rightarrow> puzzle \<Rightarrow> error + int) \<Rightarrow> heuristic_fn" where
  "as_number h = (\<lambda>s g. bind_err (h s g) (\<lambda>d. Inr (of_int d)))"

fun combine_loop ::
  "puzzle \<Rightarrow> puzzle \<Rightarrow> rat list \<Rightarrow> nat \<Rightarrow> heuristic_fn list \<Rightarrow> rat \<Rightarrow> error + rat" where
  "combine_loop start goal weights i [] tot = Inr tot"
| "combine_loop start goal weights i (heuristic # rest) tot =
     (if length weights \<le> i then Inl IndexError
      else if weights ! i > 0
        then bind_err (heuristic start goal)
               (\<lambda>h. combine_loop start goal weights (Suc i) rest (tot + weights ! i * h))
        else combine_loop start goal weights (Suc i) rest tot)"

definition combine_heuristics ::
  "puzzle \<Rightarrow> puzzle \<Rightarrow> heuristic_fn list \<Rightarrow> rat list \<Rightarrow> error + rat" where
  "combine_heuristics start goal heuristics weights =
     combine_loop start goal weights 0 heuristics 0"

subsection \<open>Metrics on numbers (astar.py, lines 63-66)\<close>

definition calculate_branching_factor :: "rat \<Rightarrow> rat \<Rightarrow> error + rat" where
  "calculate_branching_factor visited_nodes expanded_nodes =
     (if expanded_nodes = 0 then Inl ZeroDivisionError
      else Inr ((visited_nodes - 1) / expanded_nodes))"

subsection \<open>Solvability (astar.py, lines 171-185)\<close>

definition is_solvable :: "puzzle \<Rightarrow> error + bool" where
  "is_solvable start =
     bind_err (reshape33 start) (\<lambda>start.
       let k = filter (\<lambda>v. v \<noteq> 0) start;
           num_inversions =
             sum_list (map (\<lambda>i. length (filter (\<lambda>y. y < k ! i) (drop (i + 1) k)))
                           [0 ..< length k - 1])
       in Inr (num_inversions mod 2 = 0))"

subsection \<open>Search tree nodes (astar.py, lines 8-36)\<close>

text \<open>A Node object. \<open>parent\<close> is a reference into the object store (\<open>None\<close> for
  the root), \<open>children\<close> the references appended by \<open>a_star\<close>.\<close>

record node =
  name :: string
  puzzle :: puzzle
  parent :: "nat option"
  children :: "nat list"
  heuristic :: rat

text \<open>\<open>Node.__init__\<close>: the \<open>children\<close> argument is ignored, the new node always
  starts with an empty list of its own.\<close>

definition Node :: "string \<Rightarrow> puzzle \<Rightarrow> nat option \<Rightarrow> nat list \<Rightarrow> rat \<Rightarrow> node" where
  "Node nm pz par chl h =
     \<lparr>name = nm, puzzle = pz, parent = par, children = [], heuristic = h\<rparr>"

text \<open>\<open>Node.__eq__\<close> (both operands are Nodes) and \<open>Node.__lt__\<close>.\<close>

definition node_eq :: "node \<Rightarrow> node \<Rightarrow> bool" where
  "node_eq a b = (puzzle a = puzzle b)"

definition node_lt :: "node \<Rightarrow> node \<Rightarrow> bool" where
  "node_lt a b = (heuristic a < heuristic b)"

subsection \<open>Neighbours (astar.py, lines 188-228)\<close>

text \<open>\<open>np.where(parent_puzzle == 0)\<close>: the flat indices of the zero cells in row-major
  order; the source takes the first one (\<open>row[0]\<close>, \<open>col[0]\<close>), an IndexError when
  there is none.\<close>

definition where_zero :: "int list \<Rightarrow> nat list" where
  "where_zero m = filter (\<lambda>i. m ! i = 0) [0 ..< length m]"

text \<open>\<open>par\<close> is the \<open>parent\<close> argument, \<open>ref\<close> its reference, stored in each new node.\<close>

definition get_neighbors :: "nat \<Rightarrow> node \<Rightarrow> error + node list" where
  "get_neighbors ref par =
     bind_err (reshape33 (puzzle par)) (\<lambda>parent_puzzle.
       case where_zero parent_puzzle of
         [] \<Rightarrow> Inl IndexError
       | z # _ \<Rightarrow>
           let row = z div 3;
               col = z mod 3;
               neighbors = [];
               neighbors =
                 (if row \<noteq> 0 \<and> name par \<noteq> ''down'' then
                    let node_puzzle = parent_puzzle;
                        node_puzzle = set_cell node_puzzle row col (cell node_puzzle (row - 1) col);
                        node_puzzle = set_cell node_puzzle (row - 1) col 0
                    in neighbors @ [Node ''up'' node_puzzle (Some ref) [] 0]
                  else neighbors);
               neighbors =
                 (if row \<noteq> 3 - 1 \<and> name par \<noteq> ''up'' then
                    let node_puzzle = parent_puzzle;
                        node_puzzle = set_cell node_puzzle row col (cell node_puzzle (row + 1) col);
                        node_puzzle = set_cell node_puzzle (row + 1) col 0
                    in neighbors @ [Node ''down'' node_puzzle (Some ref) [] 0]
                  else neighbors);
               neighbors =
                 (if col \<noteq> 0 \<and> name par \<noteq> ''right'' then
                    let node_puzzle = parent_puzzle;
                        node_puzzle = set_cell node_puzzle row col (cell node_puzzle row (col - 1));
                        node_puzzle = set_cell node_puzzle row (col - 1) 0
                    in neighbors @ [Node ''left'' node_puzzle (Some ref) [] 0]
                  else neighbors);
               neighbors =
                 (if col \<noteq> 3 - 1 \<and> name par \<noteq> ''left'' then
                    let node_puzzle = parent_puzzle;
                        node_puzzle = set_cell node_puzzle row col (cell node_puzzle row (col + 1));
                        node_puzzle = set_cell node_puzzle row (col + 1) 0
                    in neighbors @ [Node ''right'' node_puzzle (Some ref) [] 0]
                  else neighbors)
           in Inr neighbors)"

subsection \<open>Moves as the specification words them\<close>

text \<open>Written from the specification, for comparison with \<open>get_neighbors\<close>: whether
  moving the blank from flat position \<open>b\<close> in a direction stays on the 3x3 board, the
  cell the blank moves to, the reverse of a move, and orthogonal adjacency of cells.\<close>

definition directions :: "string list" where
  "directions = [''up'', ''down'', ''left'', ''right'']"

definition in_bounds :: "string \<Rightarrow> nat \<Rightarrow> bool" where
  "in_bounds d b =
     (if d = ''up'' then 0 < b div 3
      else if d = ''down'' then b div 3 < 2
      else if d = ''left'' then 0 < b mod 3
      else if d = ''right'' then b mod 3 < 2
      else False)"

definition target :: "string \<Rightarrow> nat \<Rightarrow> nat" where
  "target d b =
     (if d = ''up'' then b - 3
      else if d = ''down'' then b + 3
      else if d = ''left'' then b - 1
      else if d = ''right'' then b + 1
      else b)"

definition reverse_move :: "string \<Rightarrow> string" where
  "reverse_move d =
     (if d = ''up'' then ''down''
      else if d = ''down'' then ''up''
      else if d = ''left'' then ''right''
      else if d = ''right'' then ''left''
      else d)"

definition adjacent :: "nat \<Rightarrow> nat \<Rightarrow> bool" where
  "adjacent b t =
     (b < 9 \<and> t < 9 \<and>
      ((b div 3 = t div 3 \<and> (b mod 3 = t mod 3 + 1 \<or> t mod 3 = b mod 3 + 1)) \<or>
       (b mod 3 = t mod 3 \<and> (b div 3 = t div 3 + 1 \<or> t div 3 = b div 3 + 1))))"

subsection \<open>The Manhattan distance as the specification words it\<close>

text \<open>Written from the specification, for comparison with \<open>manhattan_distance\<close>:
  the position of tile \<open>v\<close> in a state, its row and column in the 3x3 grid, and the
  sum over the nine tile values (blank included) of the row and column distances.\<close>

definition position :: "puzzle \<Rightarrow> int \<Rightarrow> nat" where
  "position s v = length (takeWhile (\<lambda>x. x \<noteq> v) s)"

definition row_of :: "int \<Rightarrow> puzzle \<Rightarrow> int" where
  "row_of v s = int (position s v div 3)"

definition col_of :: "int \<Rightarrow> puzzle \<Rightarrow> int" where
  "col_of v s = int (position s v mod 3)"

definition spec_manhattan :: "puzzle \<Rightarrow> puzzle \<Rightarrow> int" where
  "spec_manhattan state goal =
     (\<Sum>v \<leftarrow> [0, 1, 2, 3, 4, 5, 6, 7, 8].
        \<bar>row_of v state - row_of v goal\<bar> + \<bar>col_of v state - col_of v goal\<bar>)"

text \<open>A state: every value 0..8 exactly once.\<close>

definition is_state :: "puzzle \<Rightarrow> bool" where
  "is_state p = (mset p = mset [0, 1, 2, 3, 4, 5, 6, 7, 8])"

subsection \<open>Inversions, by recursion\<close>

text \<open>Used in the proofs about \<open>is_solvable\<close>: the number of inversions of a list,
  and the number of inverted pairs between two lists.\<close>

fun inversions :: "int list \<Rightarrow> nat" where
  "inversions [] = 0"
| "inversions (x # xs) = length (filter (\<lambda>y. y < x) xs) + inversions xs"

definition cross :: "int list \<Rightarrow> int list \<Rightarrow> nat" where
  "cross xs ys = sum_list (map (\<lambda>x. length (filter (\<lambda>y. y < x) ys)) xs)"

subsection \<open>Python values and equality\<close>

text \<open>The dynamically typed values that the claims about \<open>a_star\<close> and \<open>start_run\<close>
  depend on: numbers, references to Node objects, and tuples or lists of values.\<close>

datatype pyval =
    PyInt int
  | PyFloat rat
  | PyNode nat
  | PyTuple "pyval list"

text \<open>\<open>==\<close>. Two Nodes are equal when their puzzles are (\<open>Node.__eq__\<close>, which answers
  False for an operand of any other class); numbers compare by value; a tuple equals
  only a tuple with equal elements.\<close>

fun py_eq :: "node list \<Rightarrow> pyval \<Rightarrow> pyval \<Rightarrow> bool" where
  "py_eq objs (PyInt a) (PyInt b) = (a = b)"
| "py_eq objs (PyInt a) (PyFloat b) = (of_int a = b)"
| "py_eq objs (PyFloat a) (PyInt b) = (a = of_int b)"
| "py_eq objs (PyFloat a) (PyFloat b) = (a = b)"
| "py_eq objs (PyNode a) (PyNode b) = node_eq (objs ! a) (objs ! b)"
| "py_eq objs (PyTuple xs) (PyTuple ys) = list_all2 (py_eq objs) xs ys"
| "py_eq objs _ _ = False"

text \<open>\<open>x in t\<close> for a tuple \<open>t\<close>: some element of \<open>t\<close> equals \<open>x\<close>.\<close>

fun py_in :: "node list \<Rightarrow> pyval \<Rightarrow> pyval \<Rightarrow> bool" where
  "py_in objs x (PyTuple ys) = list_ex (py_eq objs x) ys"
| "py_in objs x _ = False"

subsection \<open>The frontier: \<open>queue.PriorityQueue\<close> over \<open>heapq\<close>\<close>

text \<open>A frontier entry is the tuple \<open>(score, node)\<close>, the node by reference.
  \<open>PriorityQueue.put\<close> is \<open>heappush\<close> and \<open>PriorityQueue.get\<close> is \<open>heappop\<close> on the list
  \<open>open_set.queue\<close>; both follow the standard library's \<open>heapq\<close>.\<close>

type_synonym entry = "rat \<times> nat"

definition as_tuple :: "entry \<Rightarrow> pyval" where
  "as_tuple e = PyTuple [PyFloat (fst e), PyNode (snd e)]"

text \<open>\<open>a < b\<close> on entries: tuples compare at the first position where they differ.\<close>

definition entry_lt :: "node list \<Rightarrow> entry \<Rightarrow> entry \<Rightarrow> bool" where
  "entry_lt objs a b =
     (if fst a \<noteq> fst b then fst a < fst b
      else if \<not> node_eq (objs ! snd a) (objs ! snd b)
        then node_lt (objs ! snd a) (objs ! snd b)
      else False)"

function siftdown_loop ::
  "('a \<Rightarrow> 'a \<Rightarrow> bool) \<Rightarrow> 'a list \<Rightarrow> nat \<Rightarrow> nat \<Rightarrow> 'a \<Rightarrow> 'a list" where
  "siftdown_loop lt heap startpos pos newitem =
     (if pos > startpos then
        (let parentpos = (pos - 1) div 2;
             parent = heap ! parentpos
         in if lt newitem parent
            then siftdown_loop lt (heap[pos := parent]) startpos parentpos newitem
            else heap[pos := newitem])
      else heap[pos := newitem])"
  by pat_completeness auto
termination
  by (relation "measure (\<lambda>(lt, heap, startpos, pos, newitem). pos)") auto

declare siftdown_loop.simps [simp del]

definition siftdown :: "('a \<Rightarrow> 'a \<Rightarrow> bool) \<Rightarrow> 'a list \<Rightarrow> nat \<Rightarrow> nat \<Rightarrow> 'a list" where
  "siftdown lt heap startpos pos = siftdown_loop lt heap startpos pos (heap ! pos)"

definition heappush :: "('a \<Rightarrow> 'a \<Rightarrow> bool) \<Rightarrow> 'a list \<Rightarrow> 'a \<Rightarrow> 'a list" where
  "heappush lt heap item =
     (let heap = heap @ [item]
      in siftdown lt heap 0 (length heap - 1))"

function siftup_loop ::
  "('a \<Rightarrow> 'a \<Rightarrow> bool) \<Rightarrow> 'a list \<Rightarrow> nat \<Rightarrow> nat \<Rightarrow> 'a list \<times> nat" where
  "siftup_loop lt heap endpos pos =
     (let childpos = 2 * pos + 1
      in if childpos < endpos then
           (let rightpos = childpos + 1;
                childpos = (if rightpos < endpos \<and> \<not> lt (heap ! childpos) (heap ! rightpos)
                            then rightpos else childpos)
            in siftup_loop lt (heap[pos := heap ! childpos]) endpos childpos)
         else (heap, pos))"
  by pat_completeness auto
termination
  by (relation "measure (\<lambda>(lt, heap, endpos, pos). endpos - pos)") auto

declare siftup_loop.simps [simp del]

definition siftup :: "('a \<Rightarrow> 'a \<Rightarrow> bool) \<Rightarrow> 'a list \<Rightarrow> nat \<Rightarrow> 'a list" where
  "siftup lt heap pos =
     (let endpos = length heap;
          startpos = pos;
          newitem = heap ! pos;
          (heap, pos) = siftup_loop lt heap endpos pos;
          heap = heap[pos := newitem]
      in siftdown lt heap startpos pos)"

text \<open>\<open>heappop\<close> on an empty list raises IndexError; \<open>a_star\<close> only pops after
  \<open>qsize() > 0\<close>.\<close>

definition heappop :: "('a \<Rightarrow> 'a \<Rightarrow> bool) \<Rightarrow> 'a list \<Rightarrow> error + ('a \<times> 'a list)" where
  "heappop lt heap =
     (if heap = [] then Inl IndexError
      else
        let lastelt = last heap;
            heap = butlast heap
        in if heap \<noteq> [] then
             (let returnitem = heap ! 0;
                  heap = heap[0 := lastelt];
                  heap = siftup lt heap 0
              in Inr (returnitem, heap))
           else Inr (lastelt, heap))"

subsection \<open>The search (astar.py, lines 89-116)\<close>

text \<open>The state of one \<open>a_star\<close> call: the Node objects created so far (the root is
  object 0), the heap array of the frontier, and the dict \<open>g_score\<close>, whose keys are
  Nodes hashed and compared by puzzle.\<close>

record search =
  objs :: "node list"
  open_set :: "entry list"
  g_score :: "puzzle \<rightharpoonup> int"

text \<open>The body of \<open>for neighbor in neighbors\<close>; \<open>current\<close> and \<open>neighbor\<close> are
  references.\<close>

definition visit_neighbor ::
  "puzzle \<Rightarrow> heuristic_fn list \<Rightarrow> rat list \<Rightarrow> nat \<Rightarrow> search \<Rightarrow> nat \<Rightarrow> error + search" where
  "visit_neighbor goal heuristics weights current st neighbor =
     (let cur = objs st ! current;
          st = st\<lparr>objs := (objs st)[current := cur\<lparr>children := children cur @ [neighbor]\<rparr>]\<rparr>
      in case g_score st (puzzle (objs st ! current)) of
           None \<Rightarrow> Inl KeyError
         | Some g \<Rightarrow>
             let tentative_g_score = g + 1
             in if (case g_score st (puzzle (objs st ! neighbor)) of
                      None \<Rightarrow> True
                    | Some known \<Rightarrow> tentative_g_score < known)
                then
                  (let st = st\<lparr>g_score :=
                               (g_score st)(puzzle (objs st ! neighbor) \<mapsto> tentative_g_score)\<rparr>
                   in bind_err (combine_heuristics (puzzle (objs st ! neighbor)) goal
                                  heuristics weights)
                        (\<lambda>h.
                           let score = of_int tentative_g_score + h;
                               st = st\<lparr>objs := (objs st)[neighbor :=
                                          (objs st ! neighbor)\<lparr>heuristic := score\<rparr>]\<rparr>
                           in if \<not> list_ex (\<lambda>item. py_in (objs st) (as_tuple (score, neighbor))
                                                       (as_tuple item))
                                     (open_set st)
                              then Inr (st\<lparr>open_set :=
                                          heappush (entry_lt (objs st)) (open_set st)
                                            (score, neighbor)\<rparr>)
                              else Inr st))
                else Inr st)"

fun visit_neighbors ::
  "puzzle \<Rightarrow> heuristic_fn list \<Rightarrow> rat list \<Rightarrow> nat \<Rightarrow> search \<Rightarrow> nat list \<Rightarrow> error + search" where
  "visit_neighbors goal heuristics weights current st [] = Inr st"
| "visit_neighbors goal heuristics weights current st (neighbor # rest) =
     bind_err (visit_neighbor goal heuristics weights current st neighbor)
       (\<lambda>st. visit_neighbors goal heuristics weights current st rest)"

text \<open>\<open>neighbors = get_neighbors(current)\<close>: the new Node objects enter the store, the
  list holds their references.\<close>

definition allocate :: "search \<Rightarrow> node list \<Rightarrow> search \<times> nat list" where
  "allocate st ns =
     (st\<lparr>objs := objs st @ ns\<rparr>, [length (objs st) ..< length (objs st) + length ns])"

datatype a_star_result =
    Found nat nat search
    \<comment> \<open>\<open>return current, root\<close>, with the objects the references point into\<close>
  | Exhausted
    \<comment> \<open>\<open>return False\<close>\<close>

text \<open>The while loop, with fuel for the iterations: \<open>None\<close> is a loop that has not
  returned within the fuel.\<close>

fun a_star_loop ::
  "nat \<Rightarrow> puzzle \<Rightarrow> heuristic_fn list \<Rightarrow> rat list \<Rightarrow> search \<Rightarrow> (error + a_star_result) option"
  where
  "a_star_loop 0 goal heuristics weights st = None"
| "a_star_loop (Suc fuel) goal heuristics weights st =
     (if length (open_set st) > 0 then
        (case heappop (entry_lt (objs st)) (open_set st) of
           Inl e \<Rightarrow> Some (Inl e)
         | Inr (item, queue) \<Rightarrow>
             let current = snd item;
                 st = st\<lparr>open_set := queue\<rparr>
             in if puzzle (objs st ! current) = goal then Some (Inr (Found current 0 st))
                else
                  (case get_neighbors current (objs st ! current) of
                     Inl e \<Rightarrow> Some (Inl e)
                   | Inr ns \<Rightarrow>
                       let (st, neighbors) = allocate st ns
                       in (case visit_neighbors goal heuristics weights current st neighbors of
                             Inl e \<Rightarrow> Some (Inl e)
                           | Inr st \<Rightarrow> a_star_loop fuel goal heuristics weights st)))
      else Some (Inr Exhausted))"

definition init_search :: "puzzle \<Rightarrow> rat \<Rightarrow> search" where
  "init_search start h =
     (let root = Node ''root'' start None [] 0;
          g_score = [start \<mapsto> 0];
          root = root\<lparr>heuristic := 0 + h\<rparr>
      in \<lparr>objs = [root],
          open_set = heappush (entry_lt [root]) [] (heuristic root, 0),
          g_score = g_score\<rparr>)"

definition a_star ::
  "nat \<Rightarrow> puzzle \<Rightarrow> puzzle \<Rightarrow> heuristic_fn list \<Rightarrow> rat list \<Rightarrow> (error + a_star_result) option"
  where
  "a_star fuel start goal heuristics weights =
     (case combine_heuristics start goal heuristics weights of
        Inl e \<Rightarrow> Some (Inl e)
      | Inr h \<Rightarrow> a_star_loop fuel goal heuristics weights (init_search start h))"





subsection \<open>The search tree as the metrics walk it (astar.py, lines 27-76)\<close>

text \<open>What \<open>Node.__len__\<close>, \<open>expanded_nodes_recursion\<close> and \<open>calculate_expanded_nodes\<close>
  see of a Node: its name, its puzzle and, through \<open>children\<close>, the nodes below it.
  \<open>tree_of store d r\<close> reads that tree from the object store, to depth \<open>d\<close>; it is \<open>None\<close>
  when the depth does not suffice or a reference points outside the store.\<close>

datatype tree = Tree string puzzle "tree list"

fun tree_children :: "tree \<Rightarrow> tree list" where
  "tree_children (Tree nm pz cs) = cs"

fun tree_of :: "node list \<Rightarrow> nat \<Rightarrow> nat \<Rightarrow> tree option" where
  "tree_of store 0 r = None"
| "tree_of store (Suc d) r =
     (if r < length store
      then map_option (Tree (name (store ! r)) (puzzle (store ! r)))
             (those (map (tree_of store d) (children (store ! r))))
      else None)"

fun visited_nodes_recursion :: "tree \<Rightarrow> int" where
  "visited_nodes_recursion (Tree nm pz cs) =
     (\<Sum>child \<leftarrow> cs. 1 + visited_nodes_recursion child)"

text \<open>\<open>Node.__len__\<close>, that is \<open>len(node)\<close>.\<close>

definition node_len :: "tree \<Rightarrow> int" where
  "node_len self = 1 + visited_nodes_recursion self"

fun expanded_nodes_recursion :: "tree \<Rightarrow> int" where
  "expanded_nodes_recursion (Tree nm pz cs) =
     (\<Sum>child \<leftarrow> cs. if tree_children child \<noteq> []
                     then expanded_nodes_recursion child + 1 else 0)"

definition calculate_expanded_nodes :: "tree \<Rightarrow> int" where
  "calculate_expanded_nodes root' =
     (let expanded_nodes = 1;
          expanded_nodes = expanded_nodes + expanded_nodes_recursion root'
      in expanded_nodes)"

text \<open>Written from the specification and the function's docstring, for comparison
  with \<open>calculate_expanded_nodes\<close>: the number of nodes of the tree, root included,
  that have at least one child.\<close>

fun nodes_with_children :: "tree \<Rightarrow> int" where
  "nodes_with_children (Tree nm pz cs) =
     (if cs \<noteq> [] then 1 else 0) + (\<Sum>child \<leftarrow> cs. nodes_with_children child)"

text \<open>\<open>reconstruct_path\<close> follows the parent references; the path is a list of
  references, from the given node back to the root.\<close>

partial_function (option) reconstruct_path_loop ::
  "node list \<Rightarrow> nat \<Rightarrow> nat list \<Rightarrow> nat list option" where
  "reconstruct_path_loop store n path =
     (case parent (store ! n) of
        Some p \<Rightarrow> reconstruct_path_loop store p (path @ [n])
      | None \<Rightarrow> Some (path @ [n]))"

declare reconstruct_path_loop.simps [code]

definition reconstruct_path :: "node list \<Rightarrow> nat \<Rightarrow> nat list option" where
  "reconstruct_path store n = reconstruct_path_loop store n []"

subsection \<open>The callers: \<open>solve\<close> (astar.py, lines 231-269) and \<open>start_run\<close> (statistics.py)\<close>

datatype solve_outcome =
    ReportedUnsolvable
    \<comment> \<open>the message "NOT solvable" was printed and False returned\<close>
  | ReportedMetrics "nat list" int int rat
    \<comment> \<open>path, visited nodes, expanded nodes and branching factor were printed\<close>

text \<open>\<open>generate_metrics\<close>, and what \<open>solve\<close> does with the value of \<open>a_star\<close>:
  unpacking \<open>current, root = False\<close> is a TypeError. \<open>None\<close> is a computation that did
  not return (the search ran out of fuel, or a walk over the objects did not end).\<close>

definition generate_metrics :: "node list \<Rightarrow> nat \<Rightarrow> nat \<Rightarrow> (error + solve_outcome) option" where
  "generate_metrics store current root' =
     (case reconstruct_path store current of
        None \<Rightarrow> None
      | Some path \<Rightarrow>
          (case tree_of store (length store) root' of
             None \<Rightarrow> None
           | Some root_tree \<Rightarrow>
               let visited_nodes = node_len root_tree;
                   expanded_nodes = calculate_expanded_nodes root_tree
               in (case calculate_branching_factor (of_int visited_nodes) (of_int expanded_nodes) of
                     Inl e \<Rightarrow> Some (Inl e)
                   | Inr branching_factor \<Rightarrow>
                       Some (Inr (ReportedMetrics path visited_nodes expanded_nodes
                                    branching_factor)))))"

definition after_search :: "(error + a_star_result) option \<Rightarrow> (error + solve_outcome) option" where
  "after_search r =
     (case r of
        None \<Rightarrow> None
      | Some (Inl e) \<Rightarrow> Some (Inl e)
      | Some (Inr Exhausted) \<Rightarrow> Some (Inl TypeError)
      | Some (Inr (Found current root' st)) \<Rightarrow> generate_metrics (objs st) current root')"

text \<open>\<open>solve\<close> reads the module-level variable \<open>initial_state\<close> in its first line:
  \<open>initial_state\<close> is the value of that global when \<open>solve\<close> is called, \<open>None\<close> when it
  is not defined (a NameError).\<close>

definition solve ::
  "puzzle option \<Rightarrow> nat \<Rightarrow> puzzle \<Rightarrow> puzzle \<Rightarrow> heuristic_fn list \<Rightarrow> rat list
     \<Rightarrow> (error + solve_outcome) option" where
  "solve initial_state fuel start goal heuristics weights =
     (case initial_state of
        None \<Rightarrow> Some (Inl NameError)
      | Some initial_state \<Rightarrow>
          (case is_solvable initial_state of
             Inl e \<Rightarrow> Some (Inl e)
           | Inr solvable \<Rightarrow>
               if \<not> solvable then Some (Inr ReportedUnsolvable)
               else after_search (a_star fuel start goal heuristics weights)))"

text \<open>\<open>start_run\<close> unpacks the pair that \<open>a_star\<close> returns as \<open>path, expanded_nodes\<close>
  and builds the result dict; \<open>start_time\<close> and \<open>end_time\<close> are the two clock readings.\<close>

definition start_run ::
  "nat \<Rightarrow> rat \<Rightarrow> rat \<Rightarrow> puzzle \<Rightarrow> rat list \<Rightarrow> puzzle \<Rightarrow> (error + (string \<times> pyval) list) option"
  where
  "start_run fuel start_time end_time start weights goal =
     (case a_star fuel start goal
             [as_number manhattan_distance, as_number hamming_distance] weights of
        None \<Rightarrow> None
      | Some (Inl e) \<Rightarrow> Some (Inl e)
      | Some (Inr Exhausted) \<Rightarrow> Some (Inl TypeError)
      | Some (Inr (Found path expanded_nodes st)) \<Rightarrow>
          (case tree_of (objs st) (length (objs st)) path of
             None \<Rightarrow> None
           | Some path_tree \<Rightarrow>
               Some (Inr [(''array'', PyTuple (map PyInt start)),
                          (''weights'', PyTuple (map PyFloat weights)),
                          (''expanded_nodes'', PyNode expanded_nodes),
                          (''time_elapsed'', PyFloat (end_time - start_time)),
                          (''depth'', PyInt (node_len path_tree - 1))])))"

subsection \<open>The invariant of the frontier\<close>




subsection \<open>Moves and move counts\<close>

text \<open>The legal moves of the puzzle, read off \<open>get_neighbors\<close>: the puzzles it produces
  for a node that has no move of its own (the root), so that no direction is pruned.
  \<open>reachable_in n s g\<close>: some sequence of \<open>n\<close> legal moves turns \<open>s\<close> into \<open>g\<close>; the
  optimal number of moves from \<open>s\<close> to \<open>g\<close> is the least such \<open>n\<close>.\<close>

definition moves :: "puzzle \<Rightarrow> puzzle list" where
  "moves s =
     (case get_neighbors 0 (Node ''root'' s None [] 0) of
        Inl e \<Rightarrow> []
      | Inr ns \<Rightarrow> map puzzle ns)"

fun reachable_in :: "nat \<Rightarrow> puzzle \<Rightarrow> puzzle \<Rightarrow> bool" where
  "reachable_in 0 s g = (s = g)"
| "reachable_in (Suc n) s g = list_ex (\<lambda>s'. reachable_in n s' g) (moves s)"

text \<open>Used in the proofs about \<open>manhattan_distance\<close>: the sum over the nine tile
  values of the distance between their flat positions.\<close>

definition flat_distance :: "puzzle \<Rightarrow> puzzle \<Rightarrow> int" where
  "flat_distance s g =
     (\<Sum>j \<leftarrow> [0 ..< 9]. \<bar>int (position g (int j)) - int (position s (int j))\<bar>)"

section \<open>Properties\<close>

subsection \<open>States\<close>

lemma is_state_length: "is_state p \<Longrightarrow> length p = 9"
proof -
  assume "is_state p"
  then have "size (mset p) = size (mset [0, 1, 2, 3, 4, 5, 6, 7, 8::int])"
    by (simp only: is_state_def)
  then show ?thesis by simp
qed

lemma is_state_set: "is_state p \<Longrightarrow> set p = {0, 1, 2, 3, 4, 5, 6, 7, 8}"
proof -
  assume "is_state p"
  then have "set_mset (mset p) = set_mset (mset [0, 1, 2, 3, 4, 5, 6, 7, 8::int])"
    by (simp only: is_state_def)
  then show ?thesis by simp
qed

lemma is_state_distinct: "is_state p \<Longrightarrow> distinct p"
proof -
  assume "is_state p"
  then have "mset p = mset [0, 1, 2, 3, 4, 5, 6, 7, 8::int]"
    by (simp only: is_state_def)
  moreover have "distinct [0, 1, 2, 3, 4, 5, 6, 7, 8::int]" by simp
  ultimately show ?thesis by (metis mset_eq_imp_distinct_iff)
qed

subsection \<open>The blank and the shape of \<open>get_neighbors\<close>\<close>

lemma filter_upt_head:
  "filter P [0..<n] = z # zs \<Longrightarrow> P z \<and> z < n \<and> (\<forall>j<z. \<not> P j)"
proof (induction n arbitrary: zs)
  case 0
  then show ?case by simp
next
  case (Suc n)
  show ?case
  proof (cases "filter P [0..<n]")
    case Nil
    with Suc.prems have "P n" "z = n" by (simp_all split: if_splits)
    moreover from Nil have "\<forall>j<n. \<not> P j" by (simp add: filter_empty_conv)
    ultimately show ?thesis by simp
  next
    case (Cons a as)
    with Suc.prems have "a = z" by (simp split: if_splits)
    with Cons have "filter P [0..<n] = z # as" by simp
    from Suc.IH[OF this] have "P z" "z < n" "\<forall>j<z. \<not> P j" by blast+
    then show ?thesis by simp
  qed
qed

lemma where_zero_head:
  assumes "is_state p"
  shows "\<exists>b bs. where_zero p = b # bs \<and> b < 9 \<and> p ! b = 0 \<and> position p 0 = b"
proof -
  have len: "length p = 9" using assms by (rule is_state_length)
  have "0 \<in> set p" unfolding is_state_set[OF assms] by simp
  then obtain i where i: "i < length p" "p ! i = 0" unfolding in_set_conv_nth by blast
  then have "i \<in> set (where_zero p)" unfolding where_zero_def by simp
  then obtain b bs where w: "where_zero p = b # bs" by (cases "where_zero p") simp_all
  have "filter (\<lambda>i. p ! i = 0) [0 ..< length p] = b # bs"
    using w unfolding where_zero_def .
  from filter_upt_head[OF this]
  have b: "p ! b = 0" "b < length p" "\<forall>j<b. p ! j \<noteq> 0" by blast+
  have "takeWhile (\<lambda>x. x \<noteq> 0) p = take b p"
  proof (rule takeWhile_eq_take_P_nth)
    show "\<And>i. i < b \<Longrightarrow> i < length p \<Longrightarrow> p ! i \<noteq> 0" using b(3) by blast
    show "b < length p \<Longrightarrow> \<not> p ! b \<noteq> 0" using b(1) by simp
  qed
  then have pos: "position p 0 = b" using b(2) by (simp add: position_def)
  have "b < 9" using b(2) len by simp
  with w b(1) pos show ?thesis by blast
qed

lemma if_snoc: "(if c then xs @ [a] else xs) = xs @ (if c then [a] else [])"
  by simp

lemma get_neighbors_shape:
  assumes "length p = 9" "where_zero p = z # zs" "puzzle nd = p"
  shows "get_neighbors ref nd = Inr (
     (if z div 3 \<noteq> 0 \<and> name nd \<noteq> ''down''
      then [Node ''up'' (p[3 * (z div 3) + z mod 3 := p ! (3 * (z div 3 - 1) + z mod 3),
                             3 * (z div 3 - 1) + z mod 3 := 0]) (Some ref) [] 0] else []) @
     (if z div 3 \<noteq> 2 \<and> name nd \<noteq> ''up''
      then [Node ''down'' (p[3 * (z div 3) + z mod 3 := p ! (3 * (z div 3 + 1) + z mod 3),
                             3 * (z div 3 + 1) + z mod 3 := 0]) (Some ref) [] 0] else []) @
     (if z mod 3 \<noteq> 0 \<and> name nd \<noteq> ''right''
      then [Node ''left'' (p[3 * (z div 3) + z mod 3 := p ! (3 * (z div 3) + (z mod 3 - 1)),
                             3 * (z div 3) + (z mod 3 - 1) := 0]) (Some ref) [] 0] else []) @
     (if z mod 3 \<noteq> 2 \<and> name nd \<noteq> ''left''
      then [Node ''right'' (p[3 * (z div 3) + z mod 3 := p ! (3 * (z div 3) + (z mod 3 + 1)),
                             3 * (z div 3) + (z mod 3 + 1) := 0]) (Some ref) [] 0] else []))"
  using assms
  by (simp add: get_neighbors_def reshape33_def Let_def set_cell_def cell_def
      if_snoc split del: if_split cong: if_cong)

lemma idx_same: "3 * (z div 3) + z mod 3 = (z::nat)" by presburger
lemma idx_up: "0 < z div 3 \<Longrightarrow> 3 * (z div 3 - Suc 0) + z mod 3 = (z::nat) - 3" by presburger
lemma idx_down: "3 * (z div 3 + 1) + z mod 3 = (z::nat) + 3" by presburger
lemma idx_left: "0 < z mod 3 \<Longrightarrow> 3 * (z div 3) + (z mod 3 - Suc 0) = (z::nat) - 1" by presburger
lemma idx_right: "3 * (z div 3) + (z mod 3 + 1) = (z::nat) + 1" by presburger

lemma in_bounds_simps:
  "in_bounds ''up'' b = (b div 3 \<noteq> 0)"
  "b < 9 \<Longrightarrow> in_bounds ''down'' b = (b div 3 \<noteq> 2)"
  "in_bounds ''left'' b = (b mod 3 \<noteq> 0)"
  "in_bounds ''right'' b = (b mod 3 \<noteq> 2)"
proof -
  show "in_bounds ''up'' b = (b div 3 \<noteq> 0)" by (simp add: in_bounds_def)
  show "in_bounds ''left'' b = (b mod 3 \<noteq> 0)" by (simp add: in_bounds_def)
  have "b mod 3 < 3" by simp
  then show "in_bounds ''right'' b = (b mod 3 \<noteq> 2)" by (simp add: in_bounds_def) arith
  assume "b < 9"
  then have "b div 3 < 3" by simp
  then show "in_bounds ''down'' b = (b div 3 \<noteq> 2)" by (simp add: in_bounds_def) arith
qed

lemma get_neighbors_normal:
  assumes "length p = 9" "where_zero p = b # bs" "b < 9" "puzzle nd = p"
  shows "get_neighbors ref nd = Inr (
     (if in_bounds ''up'' b \<and> name nd \<noteq> ''down''
      then [Node ''up'' (p[b := p ! (b - 3), b - 3 := 0]) (Some ref) [] 0] else []) @
     (if in_bounds ''down'' b \<and> name nd \<noteq> ''up''
      then [Node ''down'' (p[b := p ! (b + 3), b + 3 := 0]) (Some ref) [] 0] else []) @
     (if in_bounds ''left'' b \<and> name nd \<noteq> ''right''
      then [Node ''left'' (p[b := p ! (b - 1), b - 1 := 0]) (Some ref) [] 0] else []) @
     (if in_bounds ''right'' b \<and> name nd \<noteq> ''left''
      then [Node ''right'' (p[b := p ! (b + 1), b + 1 := 0]) (Some ref) [] 0] else []))"
  unfolding get_neighbors_shape[OF assms(1,2,4)] in_bounds_simps(1,3,4)
    in_bounds_simps(2)[OF assms(3)] idx_same idx_down idx_right
  by (simp add: idx_up idx_left split del: if_split cong: if_cong)

subsection \<open>Neighbours\<close>

lemma Node_sel:
  "name (Node nm pz par chl h) = nm" "puzzle (Node nm pz par chl h) = pz"
  "parent (Node nm pz par chl h) = par" "children (Node nm pz par chl h) = []"
  "heuristic (Node nm pz par chl h) = h"
  by (simp_all add: Node_def)

lemma target_simps:
  "target ''up'' b = b - 3" "target ''down'' b = b + 3"
  "target ''left'' b = b - 1" "target ''right'' b = b + 1"
  by (simp_all add: target_def)

lemma reverse_move_simps:
  "(x \<noteq> reverse_move ''up'') = (x \<noteq> ''down'')"
  "(x \<noteq> reverse_move ''down'') = (x \<noteq> ''up'')"
  "(x \<noteq> reverse_move ''left'') = (x \<noteq> ''right'')"
  "(x \<noteq> reverse_move ''right'') = (x \<noteq> ''left'')"
  by (simp_all add: reverse_move_def)

lemma reverse_move_simps2:
  "(''up'' \<noteq> reverse_move x) = (x \<noteq> ''down'')"
  "(''down'' \<noteq> reverse_move x) = (x \<noteq> ''up'')"
  "(''left'' \<noteq> reverse_move x) = (x \<noteq> ''right'')"
  "(''right'' \<noteq> reverse_move x) = (x \<noteq> ''left'')"
  by (auto simp add: reverse_move_def)

lemma get_neighbors_state:
  assumes st: "is_state (puzzle nd)"
  shows "\<exists>b. b = position (puzzle nd) 0 \<and> b < 9 \<and> puzzle nd ! b = 0 \<and>
    get_neighbors ref nd = Inr (
     (if in_bounds ''up'' b \<and> name nd \<noteq> ''down''
      then [Node ''up'' ((puzzle nd)[b := puzzle nd ! (b - 3), b - 3 := 0]) (Some ref) [] 0] else []) @
     (if in_bounds ''down'' b \<and> name nd \<noteq> ''up''
      then [Node ''down'' ((puzzle nd)[b := puzzle nd ! (b + 3), b + 3 := 0]) (Some ref) [] 0] else []) @
     (if in_bounds ''left'' b \<and> name nd \<noteq> ''right''
      then [Node ''left'' ((puzzle nd)[b := puzzle nd ! (b - 1), b - 1 := 0]) (Some ref) [] 0] else []) @
     (if in_bounds ''right'' b \<and> name nd \<noteq> ''left''
      then [Node ''right'' ((puzzle nd)[b := puzzle nd ! (b + 1), b + 1 := 0]) (Some ref) [] 0] else []))"
proof -
  from where_zero_head[OF st] obtain b bs where
    w: "where_zero (puzzle nd) = b # bs" and b9: "b < 9" and z: "puzzle nd ! b = 0"
    and pos: "position (puzzle nd) 0 = b"
    by blast
  have len: "length (puzzle nd) = 9" using st by (rule is_state_length)
  show ?thesis
    using get_neighbors_normal[OF len w b9 refl, of ref] b9 z pos by blast
qed

lemma get_neighbors_member:
  assumes st: "is_state (puzzle nd)" and gn: "get_neighbors ref nd = Inr ns" and n: "n \<in> set ns"
  shows "\<exists>d \<in> set directions. name n = d \<and> in_bounds d (position (puzzle nd) 0) \<and>
           puzzle n = (puzzle nd)[position (puzzle nd) 0 :=
                         puzzle nd ! target d (position (puzzle nd) 0),
                       target d (position (puzzle nd) 0) := 0]"
proof -
  from get_neighbors_state[OF st, of ref] gn obtain b where
    b: "b = position (puzzle nd) 0" and
    ns: "ns =
     (if in_bounds ''up'' b \<and> name nd \<noteq> ''down''
      then [Node ''up'' ((puzzle nd)[b := puzzle nd ! (b - 3), b - 3 := 0]) (Some ref) [] 0] else []) @
     (if in_bounds ''down'' b \<and> name nd \<noteq> ''up''
      then [Node ''down'' ((puzzle nd)[b := puzzle nd ! (b + 3), b + 3 := 0]) (Some ref) [] 0] else []) @
     (if in_bounds ''left'' b \<and> name nd \<noteq> ''right''
      then [Node ''left'' ((puzzle nd)[b := puzzle nd ! (b - 1), b - 1 := 0]) (Some ref) [] 0] else []) @
     (if in_bounds ''right'' b \<and> name nd \<noteq> ''left''
      then [Node ''right'' ((puzzle nd)[b := puzzle nd ! (b + 1), b + 1 := 0]) (Some ref) [] 0] else [])"
    by auto
  from n consider
      "in_bounds ''up'' b" "n = Node ''up'' ((puzzle nd)[b := puzzle nd ! (b - 3), b - 3 := 0]) (Some ref) [] 0"
    | "in_bounds ''down'' b" "n = Node ''down'' ((puzzle nd)[b := puzzle nd ! (b + 3), b + 3 := 0]) (Some ref) [] 0"
    | "in_bounds ''left'' b" "n = Node ''left'' ((puzzle nd)[b := puzzle nd ! (b - 1), b - 1 := 0]) (Some ref) [] 0"
    | "in_bounds ''right'' b" "n = Node ''right'' ((puzzle nd)[b := puzzle nd ! (b + 1), b + 1 := 0]) (Some ref) [] 0"
    unfolding ns by (auto split: if_splits)
  then show ?thesis
  proof cases
    case 1
    then show ?thesis unfolding b[symmetric] by (simp add: directions_def Node_sel target_simps)
  next
    case 2
    then show ?thesis unfolding b[symmetric] by (simp add: directions_def Node_sel target_simps)
  next
    case 3
    then show ?thesis unfolding b[symmetric] by (simp add: directions_def Node_sel target_simps)
  next
    case 4
    then show ?thesis unfolding b[symmetric] by (simp add: directions_def Node_sel target_simps)
  qed
qed

lemma lt9_cases: "b < 9 \<Longrightarrow> b \<in> {0, 1, 2, 3, 4, 5, 6, 7, 8::nat}"
  by auto

lemma adjacent_up: "b < 9 \<Longrightarrow> 0 < b div 3 \<Longrightarrow> adjacent b (b - 3)"
  by (drule lt9_cases) (auto simp add: adjacent_def)

lemma adjacent_down: "b < 9 \<Longrightarrow> b div 3 < 2 \<Longrightarrow> adjacent b (b + 3)"
  by (drule lt9_cases) (auto simp add: adjacent_def)

lemma adjacent_left: "b < 9 \<Longrightarrow> 0 < b mod 3 \<Longrightarrow> adjacent b (b - 1)"
  by (drule lt9_cases) (auto simp add: adjacent_def)

lemma adjacent_right: "b < 9 \<Longrightarrow> b mod 3 < 2 \<Longrightarrow> adjacent b (b + 1)"
  by (drule lt9_cases) (auto simp add: adjacent_def)

lemma adjacent_target:
  assumes "b < 9" "in_bounds d b"
  shows "adjacent b (target d b)"
proof -
  consider "d = ''up''" | "d = ''down''" | "d = ''left''" | "d = ''right''"
    using assms(2) unfolding in_bounds_def by (auto split: if_splits)
  then show ?thesis
  proof cases
    case 1
    with assms have "0 < b div 3" by (simp add: in_bounds_def)
    with assms(1) show ?thesis unfolding 1 target_simps by (rule adjacent_up)
  next
    case 2
    with assms have "b div 3 < 2" by (simp add: in_bounds_def)
    with assms(1) show ?thesis unfolding 2 target_simps by (rule adjacent_down)
  next
    case 3
    with assms have "0 < b mod 3" by (simp add: in_bounds_def)
    with assms(1) show ?thesis unfolding 3 target_simps by (rule adjacent_left)
  next
    case 4
    with assms have "b mod 3 < 2" by (simp add: in_bounds_def)
    with assms(1) show ?thesis unfolding 4 target_simps by (rule adjacent_right)
  qed
qed

lemma adjacent_neq: "adjacent b t \<Longrightarrow> b \<noteq> t \<and> b < 9 \<and> t < 9"
  unfolding adjacent_def by auto

lemma slide_props:
  assumes st: "is_state p" and z: "p ! b = 0" and adj: "adjacent b t"
  shows "is_state (p[b := p ! t, t := 0]) \<and>
         p[b := p ! t, t := 0] ! b = p ! t \<and> p[b := p ! t, t := 0] ! t = p ! b \<and>
         (\<forall>i<9. (p[b := p ! t, t := 0] ! i \<noteq> p ! i) = (i = b \<or> i = t))"
proof -
  have len: "length p = 9" using st by (rule is_state_length)
  have bt: "b \<noteq> t" "b < length p" "t < length p" using adjacent_neq[OF adj] len by simp_all
  have "mset (p[b := p ! t, t := p ! b]) = mset p" using bt by (simp add: mset_swap)
  then have s1: "is_state (p[b := p ! t, t := 0])" using st z unfolding is_state_def by simp
  have ne: "p ! t \<noteq> p ! b"
    using is_state_distinct[OF st] bt by (simp add: nth_eq_iff_index_eq)
  have s2: "p[b := p ! t, t := 0] ! b = p ! t" using bt by simp
  have s3: "p[b := p ! t, t := 0] ! t = p ! b" using bt z by simp
  have s4: "\<forall>i<9. (p[b := p ! t, t := 0] ! i \<noteq> p ! i) = (i = b \<or> i = t)"
  proof (intro allI impI)
    fix i assume "i < (9::nat)"
    show "(p[b := p ! t, t := 0] ! i \<noteq> p ! i) = (i = b \<or> i = t)"
      using bt ne z by (auto simp add: nth_list_update)
  qed
  show ?thesis using s1 s2 s3 s4 by blast
qed

text \<open>
  Claim C7. For a node whose puzzle is a state, \<open>get_neighbors\<close> returns at most four
  nodes with pairwise different names; each has \<open>parent\<close> the given node, no children,
  a direction as its name, and the puzzle in which the blank has moved that way; a
  direction is produced exactly when it keeps the blank on the board and is not the
  reverse of the node's own move, so for the root every in-bounds direction is
  produced, and no neighbour's move reverses the node's move.
\<close>

theorem get_neighbors_directions:
  assumes st: "is_state (puzzle nd)"
  shows "\<exists>ns. get_neighbors ref nd = Inr ns \<and> length ns \<le> 4 \<and> distinct (map name ns) \<and>
     (\<forall>n \<in> set ns. parent n = Some ref \<and> children n = [] \<and> name n \<in> set directions \<and>
        name n \<noteq> reverse_move (name nd) \<and>
        puzzle n = (puzzle nd)[position (puzzle nd) 0 :=
                      puzzle nd ! target (name n) (position (puzzle nd) 0),
                    target (name n) (position (puzzle nd) 0) := 0]) \<and>
     (\<forall>d \<in> set directions.
        (d \<in> name ` set ns) =
          (in_bounds d (position (puzzle nd) 0) \<and> name nd \<noteq> reverse_move d)) \<and>
     (name nd = ''root'' \<longrightarrow>
        (\<forall>d \<in> set directions. in_bounds d (position (puzzle nd) 0) \<longrightarrow> d \<in> name ` set ns))"
proof -
  define p where "p = puzzle nd"
  from where_zero_head[OF st] obtain b bs where
    w: "where_zero p = b # bs" and b9: "b < 9" and pos: "position p 0 = b"
    unfolding p_def by blast
  have len: "length p = 9" using st unfolding p_def by (rule is_state_length)
  define cu where "cu = (in_bounds ''up'' b \<and> name nd \<noteq> ''down'')"
  define cd where "cd = (in_bounds ''down'' b \<and> name nd \<noteq> ''up'')"
  define cl where "cl = (in_bounds ''left'' b \<and> name nd \<noteq> ''right'')"
  define cr where "cr = (in_bounds ''right'' b \<and> name nd \<noteq> ''left'')"
  define U where "U = Node ''up'' (p[b := p ! (b - 3), b - 3 := 0]) (Some ref) [] 0"
  define D where "D = Node ''down'' (p[b := p ! (b + 3), b + 3 := 0]) (Some ref) [] 0"
  define L where "L = Node ''left'' (p[b := p ! (b - 1), b - 1 := 0]) (Some ref) [] 0"
  define R where "R = Node ''right'' (p[b := p ! (b + 1), b + 1 := 0]) (Some ref) [] 0"
  define ns where "ns = (if cu then [U] else []) @ (if cd then [D] else []) @
                        (if cl then [L] else []) @ (if cr then [R] else [])"
  have gn: "get_neighbors ref nd = Inr ns"
    unfolding ns_def cu_def cd_def cl_def cr_def U_def D_def L_def R_def
    by (rule get_neighbors_normal[OF len w b9 p_def[symmetric]])
  have nm: "name U = ''up''" "name D = ''down''" "name L = ''left''" "name R = ''right''"
    unfolding U_def D_def L_def R_def by (simp_all add: Node_sel)
  have l4: "length ns \<le> 4" unfolding ns_def by simp
  have dist: "distinct (map name ns)" unfolding ns_def by (simp add: nm)
  have mem: "set ns = (if cu then {U} else {}) \<union> (if cd then {D} else {}) \<union>
                      (if cl then {L} else {}) \<union> (if cr then {R} else {})"
    unfolding ns_def by auto
  have propU: "cu \<Longrightarrow> parent U = Some ref \<and> children U = [] \<and> name U \<in> set directions \<and>
        name U \<noteq> reverse_move (name nd) \<and>
        puzzle U = p[b := p ! target (name U) b, target (name U) b := 0]"
    unfolding U_def cu_def by (simp add: Node_sel target_simps directions_def reverse_move_simps2)
  have propD: "cd \<Longrightarrow> parent D = Some ref \<and> children D = [] \<and> name D \<in> set directions \<and>
        name D \<noteq> reverse_move (name nd) \<and>
        puzzle D = p[b := p ! target (name D) b, target (name D) b := 0]"
    unfolding D_def cd_def by (simp add: Node_sel target_simps directions_def reverse_move_simps2)
  have propL: "cl \<Longrightarrow> parent L = Some ref \<and> children L = [] \<and> name L \<in> set directions \<and>
        name L \<noteq> reverse_move (name nd) \<and>
        puzzle L = p[b := p ! target (name L) b, target (name L) b := 0]"
    unfolding L_def cl_def by (simp add: Node_sel target_simps directions_def reverse_move_simps2)
  have propR: "cr \<Longrightarrow> parent R = Some ref \<and> children R = [] \<and> name R \<in> set directions \<and>
        name R \<noteq> reverse_move (name nd) \<and>
        puzzle R = p[b := p ! target (name R) b, target (name R) b := 0]"
    unfolding R_def cr_def by (simp add: Node_sel target_simps directions_def reverse_move_simps2)
  have each: "\<forall>n \<in> set ns. parent n = Some ref \<and> children n = [] \<and> name n \<in> set directions \<and>
        name n \<noteq> reverse_move (name nd) \<and>
        puzzle n = p[b := p ! target (name n) b, target (name n) b := 0]"
    unfolding mem using propU propD propL propR by (auto split: if_splits)
  have names: "name ` set ns = (if cu then {''up''} else {}) \<union> (if cd then {''down''} else {}) \<union>
                      (if cl then {''left''} else {}) \<union> (if cr then {''right''} else {})"
    unfolding mem by (auto simp: nm)
  have iff: "\<forall>d \<in> set directions.
        (d \<in> name ` set ns) = (in_bounds d b \<and> name nd \<noteq> reverse_move d)"
    unfolding names directions_def cu_def cd_def cl_def cr_def
    by (simp add: reverse_move_simps)
  have root: "name nd = ''root'' \<longrightarrow> (\<forall>d \<in> set directions. in_bounds d b \<longrightarrow> d \<in> name ` set ns)"
    using iff by (auto simp: directions_def reverse_move_def)
  show ?thesis
    using gn l4 dist each iff root unfolding p_def[symmetric] pos by blast
qed



theorem get_neighbors_directions_witness:
  "is_state [1, 2, 0, 3, 4, 5, 6, 7, 8] \<and>
   (\<exists>ns. get_neighbors 7 (Node ''right'' [1, 2, 0, 3, 4, 5, 6, 7, 8] (Some 0) [] 0) = Inr ns \<and>
      length ns \<le> 4 \<and> ''left'' \<notin> name ` set ns \<and> ''down'' \<in> name ` set ns)"
proof -
  have st: "is_state (puzzle (Node ''right'' [1, 2, 0, 3, 4, 5, 6, 7, 8] (Some 0) [] 0))"
    by (simp add: Node_sel is_state_def)
  have pos: "position [1, 2, 0, 3, 4, 5, 6, 7, 8] 0 = 2"
    by (simp add: position_def)
  from get_neighbors_directions[OF st, of 7] obtain ns where
    gn: "get_neighbors 7 (Node ''right'' [1, 2, 0, 3, 4, 5, 6, 7, 8] (Some 0) [] 0) = Inr ns"
    and l4: "length ns \<le> 4"
    and iff: "\<forall>d \<in> set directions. (d \<in> name ` set ns) =
          (in_bounds d 2 \<and> ''right'' \<noteq> reverse_move d)"
    unfolding Node_sel pos by blast
  have "''left'' \<notin> name ` set ns" "''down'' \<in> name ` set ns"
    using iff by (simp_all add: directions_def in_bounds_def reverse_move_def)
  with gn l4 st show ?thesis unfolding Node_sel by blast
qed

text \<open>
  Claim C10. For a node whose puzzle is a state, every node that \<open>get_neighbors\<close>
  returns wraps a state again, and its puzzle differs from the parent's in exactly two
  cells: the blank's cell and one orthogonally adjacent cell \<open>t\<close>, whose contents are
  exchanged.
\<close>

theorem get_neighbors_swap:
  assumes st: "is_state (puzzle nd)" and gn: "get_neighbors ref nd = Inr ns" and n: "n \<in> set ns"
  shows "is_state (puzzle n) \<and>
         (\<exists>t. adjacent (position (puzzle nd) 0) t \<and>
              puzzle n ! position (puzzle nd) 0 = puzzle nd ! t \<and>
              puzzle n ! t = puzzle nd ! position (puzzle nd) 0 \<and>
              (\<forall>i<9. (puzzle n ! i \<noteq> puzzle nd ! i) = (i = position (puzzle nd) 0 \<or> i = t)))"
proof -
  from get_neighbors_state[OF st, of ref] have b9: "position (puzzle nd) 0 < 9"
    and z: "puzzle nd ! position (puzzle nd) 0 = 0" by blast+
  from get_neighbors_member[OF st gn n] obtain d where
    d: "in_bounds d (position (puzzle nd) 0)" and
    q: "puzzle n = (puzzle nd)[position (puzzle nd) 0 :=
                         puzzle nd ! target d (position (puzzle nd) 0),
                       target d (position (puzzle nd) 0) := 0]"
    by blast
  have adj: "adjacent (position (puzzle nd) 0) (target d (position (puzzle nd) 0))"
    using b9 d by (rule adjacent_target)
  from slide_props[OF st z adj] adj show ?thesis unfolding q[symmetric] by blast
qed


theorem get_neighbors_swap_witness:
  "is_state [1, 0, 2, 3, 4, 5, 6, 7, 8] \<and>
   Node ''right'' [1, 2, 0, 3, 4, 5, 6, 7, 8] (Some 0) [] 0
     \<in> set [Node ''down'' [1, 4, 2, 3, 0, 5, 6, 7, 8] (Some 0) [] 0,
            Node ''left'' [0, 1, 2, 3, 4, 5, 6, 7, 8] (Some 0) [] 0,
            Node ''right'' [1, 2, 0, 3, 4, 5, 6, 7, 8] (Some 0) [] 0] \<and>
   get_neighbors 0 (Node ''root'' [1, 0, 2, 3, 4, 5, 6, 7, 8] None [] 0) =
     Inr [Node ''down'' [1, 4, 2, 3, 0, 5, 6, 7, 8] (Some 0) [] 0,
          Node ''left'' [0, 1, 2, 3, 4, 5, 6, 7, 8] (Some 0) [] 0,
          Node ''right'' [1, 2, 0, 3, 4, 5, 6, 7, 8] (Some 0) [] 0] \<and>
   is_state [1, 2, 0, 3, 4, 5, 6, 7, 8]"
proof -
  have st: "is_state (puzzle (Node ''root'' [1, 0, 2, 3, 4, 5, 6, 7, 8] None [] 0))"
    by (simp add: Node_sel is_state_def)
  have gn: "get_neighbors 0 (Node ''root'' [1, 0, 2, 3, 4, 5, 6, 7, 8] None [] 0) =
     Inr [Node ''down'' [1, 4, 2, 3, 0, 5, 6, 7, 8] (Some 0) [] 0,
          Node ''left'' [0, 1, 2, 3, 4, 5, 6, 7, 8] (Some 0) [] 0,
          Node ''right'' [1, 2, 0, 3, 4, 5, 6, 7, 8] (Some 0) [] 0]"
    by code_simp
  have n: "Node ''right'' [1, 2, 0, 3, 4, 5, 6, 7, 8] (Some 0) [] 0
     \<in> set [Node ''down'' [1, 4, 2, 3, 0, 5, 6, 7, 8] (Some 0) [] 0,
            Node ''left'' [0, 1, 2, 3, 4, 5, 6, 7, 8] (Some 0) [] 0,
            Node ''right'' [1, 2, 0, 3, 4, 5, 6, 7, 8] (Some 0) [] 0]"
    by simp
  from get_neighbors_swap[OF st gn n] st gn n show ?thesis
    by (simp only: Node_sel)
qed

text \<open>
  Claim C1 does not hold of the code: \<open>manhattan_distance\<close> divides the flat positions
  by 9 (the shape tuple), not by the side length 3, so it returns the sum of the
  distances between flat indices. On the state below tile 3 and the blank are one row
  apart: the specified distance is 2, the code returns 6.
\<close>

theorem manhattan_distance_flat_index_example:
  "is_state [3, 1, 2, 0, 4, 5, 6, 7, 8] \<and> is_state [0, 1, 2, 3, 4, 5, 6, 7, 8] \<and>
   manhattan_distance [3, 1, 2, 0, 4, 5, 6, 7, 8] [0, 1, 2, 3, 4, 5, 6, 7, 8] = Inr 6 \<and>
   spec_manhattan [3, 1, 2, 0, 4, 5, 6, 7, 8] [0, 1, 2, 3, 4, 5, 6, 7, 8] = 2"
proof (intro conjI)
  show "is_state [3, 1, 2, 0, 4, 5, 6, 7, 8]" by (simp add: is_state_def)
  show "is_state [0, 1, 2, 3, 4, 5, 6, 7, 8]" by (simp add: is_state_def)
  show "manhattan_distance [3, 1, 2, 0, 4, 5, 6, 7, 8] [0, 1, 2, 3, 4, 5, 6, 7, 8] = Inr 6"
    by code_simp
  show "spec_manhattan [3, 1, 2, 0, 4, 5, 6, 7, 8] [0, 1, 2, 3, 4, 5, 6, 7, 8] = 2"
    by code_simp
qed




subsection \<open>Solvability\<close>

lemma inversions_sum_all:
  "sum_list (map (\<lambda>i. length (filter (\<lambda>y. y < k ! i) (drop (i + 1) k))) [0 ..< length k])
     = inversions k"
proof (induction k)
  case Nil
  then show ?case by simp
next
  case (Cons x xs)
  have "map (\<lambda>i. length (filter (\<lambda>y. y < (x # xs) ! i) (drop (i + 1) (x # xs)))) [0 ..< length (x # xs)]
      = length (filter (\<lambda>y. y < x) xs)
        # map (\<lambda>i. length (filter (\<lambda>y. y < xs ! i) (drop (i + 1) xs))) [0 ..< length xs]"
    by (simp add: map_upt_Suc del: upt_Suc)
  then show ?case using Cons.IH by simp
qed

lemma inversions_sum:
  "sum_list (map (\<lambda>i. length (filter (\<lambda>y. y < k ! i) (drop (i + 1) k))) [0 ..< length k - 1])
     = inversions k"
proof (cases k rule: rev_cases)
  case Nil
  then show ?thesis by simp
next
  case (snoc ys y)
  have "sum_list (map (\<lambda>i. length (filter (\<lambda>y. y < k ! i) (drop (i + 1) k))) [0 ..< length k])
     = sum_list (map (\<lambda>i. length (filter (\<lambda>y. y < k ! i) (drop (i + 1) k))) [0 ..< length k - 1])"
    unfolding snoc by simp
  then show ?thesis using inversions_sum_all[of k] by simp
qed

lemma is_solvable_inversions:
  "length p = 9 \<Longrightarrow> is_solvable p = Inr (even (inversions (filter (\<lambda>v. v \<noteq> 0) p)))"
  unfolding is_solvable_def Let_def inversions_sum
  by (simp add: reshape33_def even_iff_mod_2_eq_zero)

lemma inversions_append:
  "inversions (xs @ ys) = inversions xs + cross xs ys + inversions ys"
  by (induction xs) (simp_all add: cross_def)

lemma cross_Cons: "cross (x # xs) ys = length (filter (\<lambda>y. y < x) ys) + cross xs ys"
  by (simp add: cross_def)

lemma cross_swap_right:
  "cross A (a # B @ b # C) = cross A (b # B @ a # C)"
  unfolding cross_def by (rule arg_cong[where f=sum_list], rule map_cong) simp_all

lemma cross_snoc_right:
  "cross B (b # C) = length (filter (\<lambda>x. b < x) B) + cross B C"
  by (induction B) (simp_all add: cross_def)

lemma lt_gt_length:
  "(x::int) \<notin> set B \<Longrightarrow> length (filter (\<lambda>y. y < x) B) + length (filter (\<lambda>y. x < y) B) = length B"
  by (induction B) auto

lemma inversions_swap_odd:
  assumes "a \<noteq> b" "a \<notin> set B" "b \<notin> set B"
  shows "odd (inversions (A @ a # B @ b # C) + inversions (A @ b # B @ a # C))"
proof -
  define K where "K = inversions A + cross A (a # B @ b # C) + inversions B + cross B C + inversions C
                       + length (filter (\<lambda>y. y < a) C) + length (filter (\<lambda>y. y < b) C)"
  define la where "la = length (filter (\<lambda>y. y < a) B)"
  define ga where "ga = length (filter (\<lambda>y. a < y) B)"
  define lb where "lb = length (filter (\<lambda>y. y < b) B)"
  define gb where "gb = length (filter (\<lambda>y. b < y) B)"
  have i1: "inversions (A @ a # B @ b # C) = K + la + gb + (if b < a then 1 else 0)"
    unfolding K_def la_def gb_def
    by (simp add: inversions_append cross_snoc_right)
  have i2: "inversions (A @ b # B @ a # C) = K + lb + ga + (if a < b then 1 else 0)"
    unfolding K_def lb_def ga_def cross_swap_right[of A a B b C]
    by (simp add: inversions_append cross_snoc_right)
  have la: "la + ga = length B" unfolding la_def ga_def using assms(2) by (rule lt_gt_length)
  have lb: "lb + gb = length B" unfolding lb_def gb_def using assms(3) by (rule lt_gt_length)
  have "inversions (A @ a # B @ b # C) + inversions (A @ b # B @ a # C)
        = 2 * K + (la + ga) + (lb + gb) + 1"
    unfolding i1 i2 using assms(1) by auto
  then show ?thesis unfolding la lb by simp
qed


lemma swap_decompose:
  assumes ij: "i < j" and j: "j < length p"
  shows "\<exists>A B C. p = A @ p ! i # B @ p ! j # C \<and>
                 p[i := p ! j, j := p ! i] = A @ p ! j # B @ p ! i # C"
proof -
  define A where "A = take i p"
  define rest where "rest = drop (Suc i) p"
  define j' where "j' = j - Suc i"
  define B where "B = take j' rest"
  define C where "C = drop (Suc j') rest"
  have i: "i < length p" using ij j by simp
  have lA: "length A = i" unfolding A_def using i by simp
  have j'len: "j' < length rest" unfolding j'_def rest_def using ij j by simp
  have jeq: "j = length A + Suc j'" unfolding lA j'_def using ij by simp
  have p1: "p = A @ p ! i # rest" unfolding A_def rest_def using i by (rule id_take_nth_drop)
  have rj: "rest ! j' = p ! j" unfolding rest_def j'_def using ij j by simp
  have r1: "rest = B @ p ! j # C"
    unfolding B_def C_def rj[symmetric] using j'len by (rule id_take_nth_drop)
  have lB: "length B = j'" unfolding B_def using j'len by simp
  have u1: "p[i := p ! j] = A @ p ! j # rest"
    unfolding A_def rest_def using i by (rule upd_conv_take_nth_drop)
  have "(A @ p ! j # rest)[j := p ! i] = A @ p ! j # rest[j' := p ! i]"
    unfolding jeq by (simp add: list_update_append)
  also have "rest[j' := p ! i] = B @ p ! i # C"
    unfolding B_def C_def using j'len by (rule upd_conv_take_nth_drop)
  finally have u2: "p[i := p ! j, j := p ! i] = A @ p ! j # B @ p ! i # C"
    unfolding u1 .
  have "p = A @ p ! i # B @ p ! j # C" using p1 r1 by simp
  with u2 show ?thesis by blast
qed

lemma is_solvable_swap_lt:
  assumes st: "is_state p" and ij: "i < j" and j: "j < 9"
    and nz: "p ! i \<noteq> 0" "p ! j \<noteq> 0"
  shows "\<exists>s. is_solvable p = Inr s \<and> is_solvable (p[i := p ! j, j := p ! i]) = Inr (\<not> s)"
proof -
  have len: "length p = 9" using st by (rule is_state_length)
  have dist: "distinct p" using st by (rule is_state_distinct)
  from swap_decompose[OF ij, of p] j len obtain A B C where
    p: "p = A @ p ! i # B @ p ! j # C" and
    q: "p[i := p ! j, j := p ! i] = A @ p ! j # B @ p ! i # C"
    by auto
  define a where "a = p ! i"
  define b where "b = p ! j"
  have p': "p = A @ a # B @ b # C" using p unfolding a_def b_def .
  have q': "p[i := b, j := a] = A @ b # B @ a # C" using q unfolding a_def b_def .
  have d': "distinct (A @ a # B @ b # C)" using dist p' by simp
  have ab: "a \<noteq> b" "a \<notin> set (filter (\<lambda>v. v \<noteq> 0) B)" "b \<notin> set (filter (\<lambda>v. v \<noteq> 0) B)"
    using d' by auto
  have fp: "filter (\<lambda>v. v \<noteq> 0) p =
      filter (\<lambda>v. v \<noteq> 0) A @ a # filter (\<lambda>v. v \<noteq> 0) B @ b # filter (\<lambda>v. v \<noteq> 0) C"
    using nz unfolding a_def[symmetric] b_def[symmetric] by (subst p') simp
  have fq: "filter (\<lambda>v. v \<noteq> 0) (p[i := b, j := a]) =
      filter (\<lambda>v. v \<noteq> 0) A @ b # filter (\<lambda>v. v \<noteq> 0) B @ a # filter (\<lambda>v. v \<noteq> 0) C"
    using nz unfolding a_def[symmetric] b_def[symmetric] q' by simp
  have "odd (inversions (filter (\<lambda>v. v \<noteq> 0) p) + inversions (filter (\<lambda>v. v \<noteq> 0) (p[i := b, j := a])))"
    unfolding fp fq using ab by (rule inversions_swap_odd)
  then have flip: "even (inversions (filter (\<lambda>v. v \<noteq> 0) (p[i := b, j := a])))
                 = (\<not> even (inversions (filter (\<lambda>v. v \<noteq> 0) p)))"
    by simp
  have "is_solvable p = Inr (even (inversions (filter (\<lambda>v. v \<noteq> 0) p)))"
    using len by (rule is_solvable_inversions)
  moreover have "is_solvable (p[i := b, j := a]) = Inr (\<not> even (inversions (filter (\<lambda>v. v \<noteq> 0) p)))"
    using len by (simp add: is_solvable_inversions flip)
  ultimately show ?thesis unfolding a_def b_def by blast
qed

text \<open>
  Claim C8. For a state \<open>p\<close>, exchanging the contents of two distinct positions that
  both hold non-blank tiles gives a state on which \<open>is_solvable\<close> returns the
  opposite answer (for every \<open>p\<close>, so in particular for the \<open>p\<close> of even inversion
  parity, where \<open>is_solvable p\<close> is true).
\<close>

theorem is_solvable_swap_flips:
  assumes st: "is_state p" and i: "i < 9" and j: "j < 9" and ij: "i \<noteq> j"
    and nz: "p ! i \<noteq> 0" "p ! j \<noteq> 0"
  shows "is_state (p[i := p ! j, j := p ! i]) \<and>
         (\<exists>s. is_solvable p = Inr s \<and> is_solvable (p[i := p ! j, j := p ! i]) = Inr (\<not> s))"
proof -
  have len: "length p = 9" using st by (rule is_state_length)
  have "mset (p[i := p ! j, j := p ! i]) = mset p" using i j len by (simp add: mset_swap)
  then have st': "is_state (p[i := p ! j, j := p ! i])" using st unfolding is_state_def by simp
  have "\<exists>s. is_solvable p = Inr s \<and> is_solvable (p[i := p ! j, j := p ! i]) = Inr (\<not> s)"
  proof (cases "i < j")
    case True
    then show ?thesis by (rule is_solvable_swap_lt[OF st _ j nz])
  next
    case False
    then have ji: "j < i" using ij by simp
    have sw: "p[i := p ! j, j := p ! i] = p[j := p ! i, i := p ! j]"
      using ij by (simp add: list_update_swap)
    show ?thesis unfolding sw by (rule is_solvable_swap_lt[OF st ji i nz(2,1)])
  qed
  with st' show ?thesis by blast
qed

theorem is_solvable_swap_flips_witness:
  "is_state [2, 4, 0, 5, 6, 1, 8, 7, 3] \<and>
   is_solvable [2, 4, 0, 5, 6, 1, 8, 7, 3] = Inr True \<and>
   is_solvable [4, 2, 0, 5, 6, 1, 8, 7, 3] = Inr False"
proof -
  have st: "is_state [2, 4, 0, 5, 6, 1, 8, 7, 3]" by (simp add: is_state_def)
  have s: "is_solvable [2, 4, 0, 5, 6, 1, 8, 7, 3] = Inr True" by code_simp
  from is_solvable_swap_flips[OF st, of 0 1] s st show ?thesis by auto
qed

subsection \<open>Metrics and callers\<close>

lemma nodes_with_children_leaf: "tree_children t = [] \<Longrightarrow> nodes_with_children t = 0"
  by (cases t) simp

lemma expanded_nodes_recursion_eq:
  "expanded_nodes_recursion t =
     nodes_with_children t - (if tree_children t \<noteq> [] then 1 else 0)"
proof (induction t)
  case (Tree nm pz cs)
  have "\<And>c. c \<in> set cs \<Longrightarrow>
          (if tree_children c \<noteq> [] then expanded_nodes_recursion c + 1 else 0)
            = nodes_with_children c"
    using Tree.IH by (simp add: nodes_with_children_leaf)
  then have "(\<Sum>child \<leftarrow> cs. if tree_children child \<noteq> []
                     then expanded_nodes_recursion child + 1 else 0)
           = (\<Sum>child \<leftarrow> cs. nodes_with_children child)"
    by (intro arg_cong[where f = sum_list] map_cong refl)
  then show ?case by simp
qed

lemma calculate_expanded_nodes_with_children:
  "tree_children t \<noteq> [] \<Longrightarrow> calculate_expanded_nodes t = nodes_with_children t"
  by (simp add: calculate_expanded_nodes_def expanded_nodes_recursion_eq)

text \<open>
  Claim C6 does not hold of the code for every root a run produces. When the start
  state is the goal, \<open>a_star\<close> returns the root without expanding it: the tree is the
  root alone, no node has a child, and \<open>calculate_expanded_nodes\<close> still answers 1
  (its count starts at 1 "to account for the root"). For a root with a child the
  two counts agree (\<open>calculate_expanded_nodes_with_children\<close>).
\<close>

theorem calculate_expanded_nodes_childless_root:
  "(case a_star 1 [0, 1, 2, 3, 4, 5, 6, 7, 8] [0, 1, 2, 3, 4, 5, 6, 7, 8]
           [as_number manhattan_distance, as_number hamming_distance] [1, 0] of
      Some (Inr (Found current r st)) \<Rightarrow>
        map_option (\<lambda>t. (t, calculate_expanded_nodes t, nodes_with_children t))
          (tree_of (objs st) (length (objs st)) r)
    | _ \<Rightarrow> None)
   = Some (Tree ''root'' [0, 1, 2, 3, 4, 5, 6, 7, 8] [], 1, 0)"
  by code_simp

lemma after_search_never_unsolvable: "after_search r \<noteq> Some (Inr ReportedUnsolvable)"
  unfolding after_search_def generate_metrics_def Let_def
  by (simp split: option.splits sum.splits a_star_result.splits)

text \<open>
  Claim C3 does not hold of the code: the gate of \<open>solve\<close> evaluates \<open>is_solvable\<close> on
  the module-level \<open>initial_state\<close>, not on \<open>start\<close>. With the module's own
  \<open>initial_state = (2, 4, 0, 5, 6, 1, 8, 7, 3)\<close>, which is solvable, and the unsolvable
  \<open>start = (2, 1, 0, 3, 4, 5, 6, 7, 8)\<close>, \<open>solve\<close> does not report unsolvability: it goes
  on to \<open>a_star\<close> and returns what the search gives. Where \<open>initial_state\<close> is not
  defined, \<open>solve\<close> raises NameError.
\<close>

theorem solve_gate_reads_global:
  "is_solvable [2, 1, 0, 3, 4, 5, 6, 7, 8] = Inr False \<and>
   solve (Some [2, 4, 0, 5, 6, 1, 8, 7, 3]) fuel [2, 1, 0, 3, 4, 5, 6, 7, 8] goal hs ws
     = after_search (a_star fuel [2, 1, 0, 3, 4, 5, 6, 7, 8] goal hs ws) \<and>
   after_search (a_star fuel [2, 1, 0, 3, 4, 5, 6, 7, 8] goal hs ws)
     \<noteq> Some (Inr ReportedUnsolvable) \<and>
   solve None fuel [2, 1, 0, 3, 4, 5, 6, 7, 8] goal hs ws = Some (Inl NameError)"
proof (intro conjI)
  show "is_solvable [2, 1, 0, 3, 4, 5, 6, 7, 8] = Inr False" by code_simp
  have "is_solvable [2, 4, 0, 5, 6, 1, 8, 7, 3] = Inr True" by code_simp
  then show "solve (Some [2, 4, 0, 5, 6, 1, 8, 7, 3]) fuel [2, 1, 0, 3, 4, 5, 6, 7, 8] goal hs ws
     = after_search (a_star fuel [2, 1, 0, 3, 4, 5, 6, 7, 8] goal hs ws)"
    by (simp add: solve_def)
  show "after_search (a_star fuel [2, 1, 0, 3, 4, 5, 6, 7, 8] goal hs ws)
     \<noteq> Some (Inr ReportedUnsolvable)" by (rule after_search_never_unsolvable)
  show "solve None fuel [2, 1, 0, 3, 4, 5, 6, 7, 8] goal hs ws = Some (Inl NameError)"
    by (simp add: solve_def)
qed

text \<open>
  Claim C4 does not hold of the code: \<open>a_star\<close> returns \<open>(current, root)\<close>, which
  \<open>start_run\<close> unpacks as \<open>path, expanded_nodes\<close>. On a start state one move from the
  goal the record's \<open>expanded_nodes\<close> is the root Node itself and its \<open>depth\<close> is
  \<open>len(current) - 1 = 0\<close>, while the run expanded 1 node and its path has depth 1.
\<close>

theorem start_run_fields:
  "(case start_run 2 0 1 [1, 0, 2, 3, 4, 5, 6, 7, 8] [1, 0] [0, 1, 2, 3, 4, 5, 6, 7, 8] of
      Some (Inr r) \<Rightarrow> (map_of r ''expanded_nodes'', map_of r ''depth'')
    | _ \<Rightarrow> (None, None))
   = (Some (PyNode 0), Some (PyInt 0)) \<and>
   (case a_star 2 [1, 0, 2, 3, 4, 5, 6, 7, 8] [0, 1, 2, 3, 4, 5, 6, 7, 8]
           [as_number manhattan_distance, as_number hamming_distance] [1, 0] of
      Some (Inr (Found current r st)) \<Rightarrow>
        (map_option calculate_expanded_nodes (tree_of (objs st) (length (objs st)) r),
         map_option (\<lambda>path. int (length path) - 1) (reconstruct_path (objs st) current))
    | _ \<Rightarrow> (None, None))
   = (Some 1, Some 1)"
  by (intro conjI; code_simp)

subsection \<open>The heap operations keep the entries\<close>


lemma siftdown_loop_length:
  "length (siftdown_loop lt heap startpos pos x) = length heap"
proof (induction lt heap startpos pos x rule: siftdown_loop.induct)
  case (1 lt heap startpos pos newitem)
  show ?case
    by (subst siftdown_loop.simps) (simp add: Let_def 1)
qed







subsection \<open>The frontier during a run\<close>























subsection \<open>The heuristic and the number of moves\<close>

lemma position_Cons: "position (v # vs) x = (if v = x then 0 else Suc (position vs x))"
  by (simp add: position_def)

lemma position_less: "x \<in> set xs \<Longrightarrow> position xs x < length xs"
  unfolding position_def by (induction xs) auto

lemma nth_position: "x \<in> set xs \<Longrightarrow> xs ! position xs x = x"
  unfolding position_def by (induction xs) auto

lemma position_nth: "distinct xs \<Longrightarrow> i < length xs \<Longrightarrow> position xs (xs ! i) = i"
proof (induction xs arbitrary: i)
  case Nil
  then show ?case by simp
next
  case (Cons a xs)
  show ?case
  proof (cases i)
    case 0
    then show ?thesis by (simp add: position_Cons)
  next
    case (Suc k)
    with Cons.prems have k: "k < length xs" and d: "distinct xs" and a: "a \<notin> set xs" by simp_all
    have "xs ! k \<in> set xs" using k by simp
    with a have "a \<noteq> xs ! k" by blast
    with Cons.IH[OF d k] Suc show ?thesis by (simp add: position_Cons)
  qed
qed

lemma np_index_in_range: "0 \<le> v \<Longrightarrow> v < int n \<Longrightarrow> np_index n v = Inr (nat v)"
  by (simp add: np_index_def)

lemma assign_arange_nth:
  assumes "\<forall>v \<in> set vs. 0 \<le> v \<and> v < int (length pos)" "distinct vs"
  shows "\<exists>r. assign_arange pos k vs = Inr r \<and> length r = length pos \<and>
           (\<forall>j < length pos. r ! j = (if int j \<in> set vs
                                       then Some (int (k + position vs (int j)))
                                       else pos ! j))"
  using assms
proof (induction vs arbitrary: pos k)
  case Nil
  then show ?case by simp
next
  case (Cons v vs)
  have v: "0 \<le> v" "v < int (length pos)" using Cons.prems(1) by simp_all
  have vs: "\<forall>x \<in> set vs. 0 \<le> x \<and> x < int (length (pos[nat v := Some (int k)]))"
    using Cons.prems(1) by simp
  have d: "distinct vs" and nv: "v \<notin> set vs" using Cons.prems(2) by simp_all
  from Cons.IH[OF vs d, of "Suc k"] obtain r where
    r: "assign_arange (pos[nat v := Some (int k)]) (Suc k) vs = Inr r" and
    lr: "length r = length pos" and
    nth: "\<forall>j < length pos. r ! j = (if int j \<in> set vs
                                       then Some (int (Suc k + position vs (int j)))
                                       else pos[nat v := Some (int k)] ! j)"
    by auto
  have step: "assign_arange pos k (v # vs) = Inr r"
    using r v by (simp add: np_index_in_range)
  have "\<forall>j < length pos. r ! j = (if int j \<in> set (v # vs)
                                       then Some (int (k + position (v # vs) (int j)))
                                       else pos ! j)"
  proof (intro allI impI)
    fix j assume j: "j < length pos"
    show "r ! j = (if int j \<in> set (v # vs)
                                       then Some (int (k + position (v # vs) (int j)))
                                       else pos ! j)"
    proof (cases "int j = v")
      case True
      then have "nat v = j" by simp
      with nth j nv True show ?thesis by (simp add: position_Cons)
    next
      case False
      then have "nat v \<noteq> j" using v by auto
      with nth j False show ?thesis by (auto simp add: position_Cons)
    qed
  qed
  with step lr show ?case by blast
qed

lemma initialised_all:
  "\<forall>j < length r. \<exists>c. r ! j = Some c \<Longrightarrow> initialised r = Inr (map the r)"
proof (induction r)
  case Nil
  then show ?case by simp
next
  case (Cons a r)
  from Cons.prems have "\<exists>c. (a # r) ! 0 = Some c" by blast
  then obtain c where a: "a = Some c" by auto
  have "\<forall>j < length r. \<exists>c. r ! j = Some c"
  proof (intro allI impI)
    fix j assume "j < length r"
    then have "Suc j < length (a # r)" by simp
    with Cons.prems have "\<exists>c. (a # r) ! Suc j = Some c" by blast
    then show "\<exists>c. r ! j = Some c" by simp
  qed
  from Cons.IH[OF this] a show ?case by simp
qed

lemma build_position_matrix_state:
  assumes st: "is_state s"
  shows "build_position_matrix s = Inr (map (\<lambda>j. int (position s (int j))) [0 ..< 9])"
proof -
  have set: "set s = {0, 1, 2, 3, 4, 5, 6, 7, 8}" using st by (rule is_state_set)
  have d: "distinct s" using st by (rule is_state_distinct)
  have rng: "\<forall>v \<in> set s. 0 \<le> v \<and> v < int (length (replicate 9 (None :: int option)))"
    unfolding set by simp
  from assign_arange_nth[OF rng d, of 0] obtain r where
    r: "assign_arange (replicate 9 None) 0 s = Inr r" and lr: "length r = 9" and
    nth: "\<forall>j < 9. r ! j = (if int j \<in> set s then Some (int (position s (int j)))
                            else replicate 9 None ! j)"
    by auto
  have mem: "\<And>j. j < 9 \<Longrightarrow> int j \<in> set s"
  proof -
    fix j :: nat assume "j < 9"
    then have "j \<in> {0, 1, 2, 3, 4, 5, 6, 7, 8}" by auto
    then show "int j \<in> set s" unfolding set by auto
  qed
  have nth': "\<And>j. j < 9 \<Longrightarrow> r ! j = Some (int (position s (int j)))"
    using nth mem by simp
  have "initialised r = Inr (map the r)"
    using nth' lr by (intro initialised_all) simp
  moreover have "map the r = map (\<lambda>j. int (position s (int j))) [0 ..< 9]"
    using lr nth' by (intro nth_equalityI) simp_all
  ultimately show ?thesis
    unfolding build_position_matrix_def Let_def using r by simp
qed


lemma map2_same:
  "map2 f (map a xs) (map b xs) = map (\<lambda>x. f (a x) (b x)) xs"
  by (induction xs) simp_all

lemma manhattan_distance_state:
  assumes s: "is_state s" and g: "is_state g"
  shows "manhattan_distance s g =
           Inr (\<Sum>j \<leftarrow> [0 ..< 9]. \<bar>int (position g (int j)) - int (position s (int j))\<bar>)"
proof -
  have in_set: "\<And>p j. is_state p \<Longrightarrow> j \<in> set [0 ..< 9] \<Longrightarrow> int j \<in> set p"
  proof -
    fix p :: puzzle and j :: nat assume p: "is_state p" and "j \<in> set [0 ..< 9]"
    then have "j \<in> {0, 1, 2, 3, 4, 5, 6, 7, 8}" by auto
    then show "int j \<in> set p" unfolding is_state_set[OF p] by auto
  qed
  have small: "\<And>p j. is_state p \<Longrightarrow> j \<in> set [0 ..< 9] \<Longrightarrow> position p (int j) < 9"
    using position_less[OF in_set] is_state_length by fastforce
  have md: "\<And>p. is_state p \<Longrightarrow>
      map (\<lambda>x. x mod 9) (map (\<lambda>j. int (position p (int j))) [0 ..< 9])
        = map (\<lambda>j. int (position p (int j))) [0 ..< 9]"
    using small by (simp del: upt_Suc)
  have dv: "\<And>p. is_state p \<Longrightarrow>
      map (\<lambda>x. x div 9) (map (\<lambda>j. int (position p (int j))) [0 ..< 9])
        = map (\<lambda>j. 0) [0 ..< 9]"
    using small by (simp del: upt_Suc)
  have "manhattan_distance s g =
     Inr (sum_list (map2 (+)
        (map2 (\<lambda>g i. \<bar>g - i\<bar>)
           (map (\<lambda>x. x mod 9) (map (\<lambda>j. int (position g (int j))) [0 ..< 9]))
           (map (\<lambda>x. x mod 9) (map (\<lambda>j. int (position s (int j))) [0 ..< 9])))
        (map2 (\<lambda>g i. \<bar>g - i\<bar>)
           (map (\<lambda>x. x div 9) (map (\<lambda>j. int (position g (int j))) [0 ..< 9]))
           (map (\<lambda>x. x div 9) (map (\<lambda>j. int (position s (int j))) [0 ..< 9])))))"
    unfolding manhattan_distance_def Let_def
    by (simp add: reshape33_def is_state_length[OF s] is_state_length[OF g]
        build_position_matrix_state[OF s] build_position_matrix_state[OF g] del: upt_Suc)
  also have "\<dots> = Inr (\<Sum>j \<leftarrow> [0 ..< 9]. \<bar>int (position g (int j)) - int (position s (int j))\<bar>)"
    unfolding md[OF s] md[OF g] dv[OF s] dv[OF g] map2_same by simp
  finally show ?thesis .
qed


lemma state_nth_range: "is_state s \<Longrightarrow> i < 9 \<Longrightarrow> 0 \<le> s ! i \<and> s ! i < 9"
proof -
  assume s: "is_state s" and i: "i < 9"
  have "s ! i \<in> set s" using i is_state_length[OF s] by simp
  then show ?thesis unfolding is_state_set[OF s] by auto
qed

lemma state_value_mem: "is_state s \<Longrightarrow> j < 9 \<Longrightarrow> int j \<in> set s"
proof -
  assume s: "is_state s" and "j < 9"
  then have "j \<in> {0, 1, 2, 3, 4, 5, 6, 7, 8}" by auto
  then show ?thesis unfolding is_state_set[OF s] by auto
qed

lemma flat_distance_by_index:
  assumes s: "is_state s"
  shows "flat_distance s g = (\<Sum>i \<in> {0 ..< 9}. \<bar>int (position g (s ! i)) - int i\<bar>)"
proof -
  have len: "length s = 9" using s by (rule is_state_length)
  have d: "distinct s" using s by (rule is_state_distinct)
  have "flat_distance s g
      = (\<Sum>j \<in> {0 ..< 9}. \<bar>int (position g (int j)) - int (position s (int j))\<bar>)"
    unfolding flat_distance_def by (simp add: interv_sum_list_conv_sum_set_nat)
  also have "\<dots> = (\<Sum>i \<in> {0 ..< 9}. \<bar>int (position g (s ! i)) - int i\<bar>)"
  proof (rule sum.reindex_bij_witness[where i = "\<lambda>i. nat (s ! i)"
        and j = "\<lambda>v. position s (int v)"])
    fix a :: nat assume "a \<in> {0 ..< 9}"
    then have a: "a < 9" by simp
    have m: "int a \<in> set s" using s a by (rule state_value_mem)
    show "nat (s ! position s (int a)) = a" using nth_position[OF m] by simp
    show "position s (int a) \<in> {0 ..< 9}" using position_less[OF m] len by simp
    show "\<bar>int (position g (s ! position s (int a))) - int (position s (int a))\<bar>
          = \<bar>int (position g (int a)) - int (position s (int a))\<bar>"
      using nth_position[OF m] by simp
  next
    fix b :: nat assume "b \<in> {0 ..< 9}"
    then have b: "b < 9" by simp
    have r: "0 \<le> s ! b" "s ! b < 9" using state_nth_range[OF s b] by simp_all
    show "position s (int (nat (s ! b))) = b"
      using r position_nth[OF d, of b] b len by simp
    show "nat (s ! b) \<in> {0 ..< 9}" using r by simp
  qed
  finally show ?thesis .
qed

lemma adjacent_close: "adjacent b t \<Longrightarrow> \<bar>int t - int b\<bar> \<le> 3"
proof -
  assume a: "adjacent b t"
  have b: "b = 3 * (b div 3) + b mod 3" and t: "t = 3 * (t div 3) + t mod 3" by simp_all
  have mb: "b mod 3 < 3" and mt: "t mod 3 < 3" by simp_all
  from a consider
      "b div 3 = t div 3" "b mod 3 = t mod 3 + 1"
    | "b div 3 = t div 3" "t mod 3 = b mod 3 + 1"
    | "b mod 3 = t mod 3" "b div 3 = t div 3 + 1"
    | "b mod 3 = t mod 3" "t div 3 = b div 3 + 1"
    unfolding adjacent_def by blast
  then show ?thesis
  proof cases
    case 1 with b t show ?thesis by linarith
  next
    case 2 with b t show ?thesis by linarith
  next
    case 3 with b t show ?thesis by linarith
  next
    case 4 with b t show ?thesis by linarith
  qed
qed

lemma sum_two_changed:
  fixes F F' :: "nat \<Rightarrow> int"
  assumes fin: "finite A" and b: "b \<in> A" and t: "t \<in> A" and bt: "b \<noteq> t"
    and same: "\<And>i. i \<in> A \<Longrightarrow> i \<noteq> b \<Longrightarrow> i \<noteq> t \<Longrightarrow> F' i = F i"
  shows "sum F A - sum F' A = (F b - F' b) + (F t - F' t)"
proof -
  have t': "t \<in> A - {b}" using t bt by simp
  have f: "finite (A - {b})" using fin by simp
  have "sum F A = F b + (F t + sum F (A - {b} - {t}))"
    using sum.remove[OF fin b, of F] sum.remove[OF f t', of F] by simp
  moreover have "sum F' A = F' b + (F' t + sum F' (A - {b} - {t}))"
    using sum.remove[OF fin b, of F'] sum.remove[OF f t', of F'] by simp
  moreover have "sum F' (A - {b} - {t}) = sum F (A - {b} - {t})"
    by (rule sum.cong) (simp_all add: same)
  ultimately show ?thesis by simp
qed

lemma flat_distance_slide:
  assumes s: "is_state s" and z: "s ! b = 0" and adj: "adjacent b t"
  shows "flat_distance s g \<le> flat_distance (s[b := s ! t, t := 0]) g + 6"
proof -
  define s' where "s' = s[b := s ! t, t := 0]"
  from slide_props[OF s z adj] have s': "is_state s'"
    and nb: "s' ! b = s ! t" and nt: "s' ! t = s ! b"
    and diff: "\<forall>i<9. (s' ! i \<noteq> s ! i) = (i = b \<or> i = t)"
    unfolding s'_def by blast+
  from adjacent_neq[OF adj] have bt: "b \<noteq> t" and b9: "b < 9" and t9: "t < 9" by blast+
  define F where "F = (\<lambda>i. \<bar>int (position g (s ! i)) - int i\<bar>)"
  define F' where "F' = (\<lambda>i. \<bar>int (position g (s' ! i)) - int i\<bar>)"
  have same: "\<And>i. i \<in> {0 ..< 9} \<Longrightarrow> i \<noteq> b \<Longrightarrow> i \<noteq> t \<Longrightarrow> F' i = F i"
  proof -
    fix i :: nat assume "i \<in> {0 ..< 9}" and ib: "i \<noteq> b" and it: "i \<noteq> t"
    then have "i < 9" by simp
    with diff ib it have "s' ! i = s ! i" by blast
    then show "F' i = F i" unfolding F_def F'_def by simp
  qed
  have "sum F {0 ..< 9} - sum F' {0 ..< 9} = (F b - F' b) + (F t - F' t)"
    using same b9 t9 bt by (intro sum_two_changed) simp_all
  moreover have "(F b - F' t) \<le> \<bar>int t - int b\<bar>"
    unfolding F_def F'_def nt by linarith
  moreover have "(F t - F' b) \<le> \<bar>int t - int b\<bar>"
    unfolding F_def F'_def nb by linarith
  moreover have "\<bar>int t - int b\<bar> \<le> 3" using adj by (rule adjacent_close)
  ultimately have le: "sum F {0 ..< 9} \<le> sum F' {0 ..< 9} + 6" by linarith
  have e1: "flat_distance s g = sum F {0 ..< 9}"
    unfolding F_def using s by (rule flat_distance_by_index)
  have e2: "flat_distance s' g = sum F' {0 ..< 9}"
    unfolding F'_def using s' by (rule flat_distance_by_index)
  show ?thesis using le unfolding e1[symmetric] e2[symmetric] s'_def .
qed

lemma moves_slide:
  assumes s: "is_state s" and m: "s' \<in> set (moves s)"
  shows "\<exists>b t. s ! b = 0 \<and> adjacent b t \<and> s' = s[b := s ! t, t := 0]"
proof -
  define nd where "nd = Node ''root'' s None [] 0"
  have pz: "puzzle nd = s" unfolding nd_def by (simp add: Node_sel)
  have st: "is_state (puzzle nd)" unfolding pz by (rule s)
  from m obtain ns where gn: "get_neighbors 0 nd = Inr ns" and s'ns: "s' \<in> puzzle ` set ns"
    unfolding moves_def nd_def[symmetric]
    by (cases "get_neighbors 0 nd") simp_all
  then obtain n where n: "n \<in> set ns" and s'n: "s' = puzzle n" by blast
  from get_neighbors_state[OF st, of 0] have b9: "position s 0 < 9"
    and z: "s ! position s 0 = 0" unfolding pz by blast+
  from get_neighbors_member[OF st gn n] obtain d where
    d: "in_bounds d (position s 0)" and
    q: "puzzle n = s[position s 0 := s ! target d (position s 0), target d (position s 0) := 0]"
    unfolding pz by blast
  have "adjacent (position s 0) (target d (position s 0))" using b9 d by (rule adjacent_target)
  with z q s'n show ?thesis by blast
qed

lemma reachable_in_bound:
  "is_state s \<Longrightarrow> reachable_in n s g \<Longrightarrow> is_state g \<and> flat_distance s g \<le> 6 * int n"
proof (induction n arbitrary: s)
  case 0
  then have "s = g" by simp
  moreover have "flat_distance g g = 0" unfolding flat_distance_def by simp
  ultimately show ?case using "0.prems"(1) by simp
next
  case (Suc n)
  from Suc.prems(2) obtain s' where m: "s' \<in> set (moves s)" and r: "reachable_in n s' g"
    by (auto simp add: list_ex_iff)
  from moves_slide[OF Suc.prems(1) m] obtain b t where
    z: "s ! b = 0" and adj: "adjacent b t" and s': "s' = s[b := s ! t, t := 0]" by blast
  have st': "is_state s'" unfolding s' using slide_props[OF Suc.prems(1) z adj] by blast
  from Suc.IH[OF st' r] have g: "is_state g" and b: "flat_distance s' g \<le> 6 * int n" by blast+
  have "flat_distance s g \<le> flat_distance s' g + 6"
    unfolding s' using Suc.prems(1) z adj by (rule flat_distance_slide)
  with b g show ?case by simp
qed

text \<open>
  Claim C5, as amended. \<open>manhattan_distance\<close> is not admissible: it counts the blank,
  so a single move changes two terms of the sum. It is bounded by a multiple of the
  number of moves: for a state \<open>start\<close> and every \<open>goal\<close> that \<open>n\<close> legal moves reach (the
  optimal number in particular), \<open>manhattan_distance start goal\<close> is at most \<open>6 * n\<close>.
\<close>

theorem manhattan_distance_bound:
  assumes s: "is_state start" and r: "reachable_in n start goal"
  shows "\<exists>d. manhattan_distance start goal = Inr d \<and> d \<le> 6 * int n"
proof -
  from reachable_in_bound[OF s r] have g: "is_state goal"
    and b: "flat_distance start goal \<le> 6 * int n" by blast+
  have "manhattan_distance start goal = Inr (flat_distance start goal)"
    unfolding flat_distance_def using s g by (rule manhattan_distance_state)
  with b show ?thesis by blast
qed


theorem manhattan_distance_bound_witness:
  "is_state [1, 0, 2, 3, 4, 5, 6, 7, 8] \<and>
   reachable_in 1 [1, 0, 2, 3, 4, 5, 6, 7, 8] [0, 1, 2, 3, 4, 5, 6, 7, 8] \<and>
   (\<exists>d. manhattan_distance [1, 0, 2, 3, 4, 5, 6, 7, 8] [0, 1, 2, 3, 4, 5, 6, 7, 8] = Inr d \<and>
        d \<le> 6 * int 1)"
proof -
  have s: "is_state [1, 0, 2, 3, 4, 5, 6, 7, 8]" by (simp add: is_state_def)
  have r: "reachable_in 1 [1, 0, 2, 3, 4, 5, 6, 7, 8] [0, 1, 2, 3, 4, 5, 6, 7, 8]"
    by code_simp
  from manhattan_distance_bound[OF s r] s r show ?thesis by blast
qed

text \<open>The claim as stated fails one move from the goal: the optimal number of moves
  is 1 and \<open>manhattan_distance\<close> returns 2 (the blank and tile 1, one column each).\<close>

theorem manhattan_distance_not_admissible:
  "is_state [1, 0, 2, 3, 4, 5, 6, 7, 8] \<and> is_state [0, 1, 2, 3, 4, 5, 6, 7, 8] \<and>
   reachable_in 1 [1, 0, 2, 3, 4, 5, 6, 7, 8] [0, 1, 2, 3, 4, 5, 6, 7, 8] \<and>
   \<not> reachable_in 0 [1, 0, 2, 3, 4, 5, 6, 7, 8] [0, 1, 2, 3, 4, 5, 6, 7, 8] \<and>
   manhattan_distance [1, 0, 2, 3, 4, 5, 6, 7, 8] [0, 1, 2, 3, 4, 5, 6, 7, 8] = Inr 2 \<and>
   \<not> (2::int) \<le> 1"
proof (intro conjI)
  show "is_state [1, 0, 2, 3, 4, 5, 6, 7, 8]" by (simp add: is_state_def)
  show "is_state [0, 1, 2, 3, 4, 5, 6, 7, 8]" by (simp add: is_state_def)
  show "reachable_in 1 [1, 0, 2, 3, 4, 5, 6, 7, 8] [0, 1, 2, 3, 4, 5, 6, 7, 8]" by code_simp
  show "\<not> reachable_in 0 [1, 0, 2, 3, 4, 5, 6, 7, 8] [0, 1, 2, 3, 4, 5, 6, 7, 8]" by simp
  show "manhattan_distance [1, 0, 2, 3, 4, 5, 6, 7, 8] [0, 1, 2, 3, 4, 5, 6, 7, 8] = Inr 2"
    by code_simp
  show "\<not> (2::int) \<le> 1" by simp
qed

end
